theory Spec2Isabelle
  imports Main "HOL-Library.Sublist"
begin

chapter \<open>Go with Bazel: result correlation for test runs\<close>

text \<open>
  A shallow embedding of the Bazel support of the extension: the coverage conversion and
  rollup of \<^verbatim>\<open>src/bazel/bazelCoverage.ts\<close>, the report converter, the build event
  reader, the error message collector and the argument builder of
  \<^verbatim>\<open>src/bazel/bazelTestUtils.ts\<close>, and the name resolution of the Bazel test runner
  (\<^verbatim>\<open>BazelGoTestRunner\<close>).

  Conventions. A JavaScript string is a \<^typ>\<open>string\<close>, one \<^typ>\<open>char\<close> per code unit
  (code units below 256). Counts and line numbers are integers, so \<^typ>\<open>int\<close>. An
  exception thrown by the source is a value of \<open>js_error\<close>. Functions of Node, of the
  editor API and of modules of the extension that are outside the files above are
  parameters of the functions that call them, or are introduced with a comment that says
  where their description comes from.
\<close>

section \<open>Definitions\<close>

datatype js_error = TypeError | SyntaxError

subsection \<open>Coverage: line records to editor ranges\<close>

text \<open>\<^verbatim>\<open>lcovParse.LcovLine\<close> and \<^verbatim>\<open>lcovParse.LcovPart<LcovLine>\<close>.\<close>

record LcovLine =
  line :: int
  hit :: int

record LcovPart =
  found :: int
  part_hit :: int
  details :: "LcovLine list"

text \<open>
  \<^verbatim>\<open>vscode.Range\<close>, built by \<^verbatim>\<open>new vscode.Range(startLine, startCharacter, endLine,
  endCharacter)\<close>, taken as the plain record of its four coordinates, and a decoration
  option with its range and the count shown before the text, if any.
\<close>

record Range =
  startLine :: int
  startCharacter :: int
  endLine :: int
  endCharacter :: int

record DecorationOptions =
  dec_range :: Range
  contentText :: "int option"

record CoverageData =
  uncoveredOptions :: "DecorationOptions list"
  coveredOptions :: "DecorationOptions list"

definition isSingleLine :: "Range \<Rightarrow> bool" where
  "isSingleLine r \<longleftrightarrow> startLine r = endLine r"

text \<open>
  Modelled from the spec: \<^verbatim>\<open>emptyCoverageData\<close> and \<^verbatim>\<open>elaborate\<close> of \<^verbatim>\<open>goCover\<close> are
  not among the sources. The spec has one decoration for each line of coverage detail
  (``covered + uncovered == total detail lines'', every range exactly one line), and the
  source documents \<^verbatim>\<open>showCounts\<close> as ``whether execution counts will be shown to the left
  of text''. So \<open>elaborate\<close> gives the one decoration of the range it is handed, with the
  count when counts are shown.
\<close>

definition emptyCoverageData :: CoverageData where
  "emptyCoverageData = \<lparr>uncoveredOptions = [], coveredOptions = []\<rparr>"

definition elaborate :: "Range \<Rightarrow> int \<Rightarrow> bool \<Rightarrow> DecorationOptions list" where
  "elaborate r count showCounts =
     [\<lparr>dec_range = r, contentText = (if showCounts then Some count else None)\<rparr>]"

text \<open>The body of the loop of \<^verbatim>\<open>lcovLinesToEditorRanges\<close>, for one line of detail.\<close>

definition lineRange :: "LcovLine \<Rightarrow> Range" where
  "lineRange lineDetails =
     \<lparr>startLine = line lineDetails - 1, startCharacter = 0,
      endLine = line lineDetails - 1, endCharacter = 1000\<rparr>"

definition addLineDetails :: "bool \<Rightarrow> LcovLine \<Rightarrow> CoverageData \<Rightarrow> CoverageData" where
  "addLineDetails showCounts lineDetails coverage =
     (if hit lineDetails > 0
      then coverage\<lparr>coveredOptions :=
             coveredOptions coverage @ elaborate (lineRange lineDetails) (hit lineDetails) showCounts\<rparr>
      else coverage\<lparr>uncoveredOptions :=
             uncoveredOptions coverage @ elaborate (lineRange lineDetails) (hit lineDetails) showCounts\<rparr>)"

fun lcovLinesLoop :: "bool \<Rightarrow> LcovLine list \<Rightarrow> CoverageData \<Rightarrow> CoverageData" where
  "lcovLinesLoop showCounts [] coverage = coverage"
| "lcovLinesLoop showCounts (lineDetails # rest) coverage =
     lcovLinesLoop showCounts rest (addLineDetails showCounts lineDetails coverage)"

definition lcovLinesToEditorRanges :: "LcovPart \<Rightarrow> bool \<Rightarrow> CoverageData" where
  "lcovLinesToEditorRanges lines showCounts =
     lcovLinesLoop showCounts (details lines) emptyCoverageData"

subsection \<open>Coverage: the rollup tree\<close>

datatype CoverageTreeNode =
  CoverageTreeNode
    (displayName: string)
    (absolutePath: string)
    (hits: int)
    (lines: int)
    (children: "CoverageTreeNode list option")

text \<open>One entry of the parsed report: the file and its line coverage.\<close>

record LcovFile =
  lcov_file :: string
  file_lines :: LcovPart

text \<open>
  \<^verbatim>\<open>CoverageProcessingConfig\<close>. The optional \<^verbatim>\<open>generatedFileMapper\<close> is called by the
  source as \<^verbatim>\<open>config.generatedFileMapper(config, coverageFile)\<close>; the field here is the
  mapper with the configuration already supplied.
\<close>

record CoverageProcessingConfig =
  coverProfilePath :: string
  bazelWorkspaceRoot :: string
  currentGoWorkspace :: string
  targetPackages :: "string list"
  generatedFilePrefix :: string
  generatedFileMapper :: "(string \<Rightarrow> string) option"

text \<open>The functions of Node's \<^verbatim>\<open>path\<close> module that the rollup calls.\<close>

record path_module =
  path_join :: "string \<Rightarrow> string \<Rightarrow> string"
  path_relative :: "string \<Rightarrow> string \<Rightarrow> string"
  path_dirname :: "string \<Rightarrow> string"
  path_basename :: "string \<Rightarrow> string"

definition getSourceFileAbsolutePath ::
  "path_module \<Rightarrow> CoverageProcessingConfig \<Rightarrow> string \<Rightarrow> string" where
  "getSourceFileAbsolutePath path config coverageFile =
     (case generatedFileMapper config of
        Some mapper \<Rightarrow>
          if prefix (generatedFilePrefix config) coverageFile then mapper coverageFile
          else path_join path (bazelWorkspaceRoot config) coverageFile
      | None \<Rightarrow> path_join path (bazelWorkspaceRoot config) coverageFile)"

definition fileRelativePath :: "path_module \<Rightarrow> CoverageProcessingConfig \<Rightarrow> LcovFile \<Rightarrow> string" where
  "fileRelativePath path config coverageForFile =
     path_relative path (currentGoWorkspace config)
       (getSourceFileAbsolutePath path config (lcov_file coverageForFile))"

definition filePackage :: "path_module \<Rightarrow> CoverageProcessingConfig \<Rightarrow> LcovFile \<Rightarrow> string" where
  "filePackage path config coverageForFile =
     path_dirname path (fileRelativePath path config coverageForFile)"

text \<open>
  The two maps of \<^verbatim>\<open>processLcovFiles\<close> are JavaScript \<^verbatim>\<open>Map\<close>s, which keep their keys
  in the order of first insertion: association lists, written with \<open>mapSet\<close>.
\<close>

fun mapSet :: "'k \<Rightarrow> 'v \<Rightarrow> ('k \<times> 'v) list \<Rightarrow> ('k \<times> 'v) list" where
  "mapSet k v [] = [(k, v)]"
| "mapSet k v (p # ps) = (if fst p = k then (k, v) # ps else p # mapSet k v ps)"

record LcovState =
  coveragePath :: "(string \<times> CoverageData) list"
  resultsTree :: "(string \<times> CoverageTreeNode) list"

definition fileNode :: "path_module \<Rightarrow> CoverageProcessingConfig \<Rightarrow> LcovFile \<Rightarrow> CoverageTreeNode" where
  "fileNode path config coverageForFile =
     CoverageTreeNode
       (path_basename path (fileRelativePath path config coverageForFile))
       (getSourceFileAbsolutePath path config (lcov_file coverageForFile))
       (part_hit (file_lines coverageForFile))
       (found (file_lines coverageForFile))
       None"

text \<open>
  Adding a file under its package node: \<^verbatim>\<open>hits\<close> and \<^verbatim>\<open>lines\<close> grow by the file's
  counts and the file's node is pushed onto \<^verbatim>\<open>children\<close> (\<^verbatim>\<open>children?.push\<close> does
  nothing on a node without children).
\<close>

definition addFileToNode :: "CoverageTreeNode \<Rightarrow> CoverageTreeNode \<Rightarrow> CoverageTreeNode" where
  "addFileToNode pkgRootNode child =
     CoverageTreeNode (displayName pkgRootNode) (absolutePath pkgRootNode)
       (hits pkgRootNode + hits child)
       (lines pkgRootNode + lines child)
       (map_option (\<lambda>cs. cs @ [child]) (children pkgRootNode))"

definition lcovFileStep ::
  "path_module \<Rightarrow> bool \<Rightarrow> CoverageProcessingConfig \<Rightarrow> LcovFile \<Rightarrow> LcovState \<Rightarrow> LcovState" where
  "lcovFileStep path showCounts config coverageForFile st =
     (let fileAbsolutePath = getSourceFileAbsolutePath path config (lcov_file coverageForFile);
          pkg = filePackage path config coverageForFile
      in if pkg \<notin> set (targetPackages config) then st
         else
           let pkgRootNode =
                 (case map_of (resultsTree st) pkg of
                    Some node \<Rightarrow> node
                  | None \<Rightarrow> CoverageTreeNode pkg pkg 0 0 (Some []))
           in \<lparr>coveragePath =
                 mapSet fileAbsolutePath
                   (lcovLinesToEditorRanges (file_lines coverageForFile) showCounts)
                   (coveragePath st),
               resultsTree =
                 mapSet pkg (addFileToNode pkgRootNode (fileNode path config coverageForFile))
                   (resultsTree st)\<rparr>)"

fun lcovFilesLoop ::
  "path_module \<Rightarrow> bool \<Rightarrow> CoverageProcessingConfig \<Rightarrow> LcovFile list \<Rightarrow> LcovState \<Rightarrow> LcovState" where
  "lcovFilesLoop path showCounts config [] st = st"
| "lcovFilesLoop path showCounts config (coverageForFile # rest) st =
     lcovFilesLoop path showCounts config rest
       (lcovFileStep path showCounts config coverageForFile st)"

text \<open>
  \<^verbatim>\<open>processLcovFiles\<close>: nothing happens without data; otherwise the loop runs from two
  empty maps, the paths go to \<^verbatim>\<open>createCoverageData\<close> and every package node is pushed
  onto \<^verbatim>\<open>coverageTreeRoots\<close> by \<^verbatim>\<open>addTreeRoot\<close>. The result is the map handed to
  \<^verbatim>\<open>createCoverageData\<close>, if any, and the new \<^verbatim>\<open>coverageTreeRoots\<close>.
\<close>

definition processLcovFiles ::
  "path_module \<Rightarrow> bool \<Rightarrow> LcovFile list option \<Rightarrow> CoverageProcessingConfig \<Rightarrow>
   CoverageTreeNode list \<Rightarrow> (string \<times> CoverageData) list option \<times> CoverageTreeNode list" where
  "processLcovFiles path showCounts data config coverageTreeRoots =
     (case data of
        None \<Rightarrow> (None, coverageTreeRoots)
      | Some files \<Rightarrow>
          let st = lcovFilesLoop path showCounts config files
                     \<lparr>coveragePath = [], resultsTree = []\<rparr>
          in (Some (coveragePath st), coverageTreeRoots @ map snd (resultsTree st)))"

text \<open>The invariant of the spec: a package node's totals are the sums over its children.\<close>

definition childrenOf :: "CoverageTreeNode \<Rightarrow> CoverageTreeNode list" where
  "childrenOf node = (case children node of Some cs \<Rightarrow> cs | None \<Rightarrow> [])"

definition totalsAreSums :: "CoverageTreeNode \<Rightarrow> bool" where
  "totalsAreSums node \<longleftrightarrow>
     hits node = sum_list (map hits (childrenOf node)) \<and>
     lines node = sum_list (map lines (childrenOf node))"

text \<open>
  The package node that belongs to a package after a list of files: its children are the
  nodes of the files of that package, in order. It is used to state what the loop of
  \<^verbatim>\<open>processLcovFiles\<close> has built.
\<close>

definition packageNode ::
  "path_module \<Rightarrow> CoverageProcessingConfig \<Rightarrow> LcovFile list \<Rightarrow> string \<Rightarrow> CoverageTreeNode" where
  "packageNode path config files pkg =
     (let own = filter (\<lambda>f. filePackage path config f = pkg) files
      in CoverageTreeNode pkg pkg
           (sum_list (map (\<lambda>f. part_hit (file_lines f)) own))
           (sum_list (map (\<lambda>f. found (file_lines f)) own))
           (Some (map (fileNode path config) own)))"

definition treeFor ::
  "path_module \<Rightarrow> CoverageProcessingConfig \<Rightarrow> LcovFile list \<Rightarrow>
   (string \<times> CoverageTreeNode) list \<Rightarrow> bool" where
  "treeFor path config files tree \<longleftrightarrow>
     distinct (map fst tree) \<and>
     fst ` set tree = (filePackage path config ` set files) \<inter> set (targetPackages config) \<and>
     (\<forall>(pkg, node) \<in> set tree. node = packageNode path config files pkg)"

text \<open>Sample data: the coverage scenario of the spec, and a report with three files.\<close>

definition sampleLines :: LcovPart where
  "sampleLines = \<lparr>found = 110, part_hit = 100,
     details = [\<lparr>line = 30, hit = 2\<rparr>, \<lparr>line = 40, hit = 0\<rparr>, \<lparr>line = 51, hit = 2\<rparr>]\<rparr>"

definition samplePath :: path_module where
  "samplePath =
     \<lparr>path_join = (\<lambda>a b. a @ ''/'' @ b),
      path_relative = (\<lambda>a b. drop (length a + 1) b),
      path_dirname = (\<lambda>p. rev (tl (dropWhile (\<lambda>c. c \<noteq> CHR ''/'') (rev p)))),
      path_basename = (\<lambda>p. rev (takeWhile (\<lambda>c. c \<noteq> CHR ''/'') (rev p)))\<rparr>"

definition sampleConfig :: CoverageProcessingConfig where
  "sampleConfig =
     \<lparr>coverProfilePath = ''c.dat'', bazelWorkspaceRoot = ''/r'', currentGoWorkspace = ''/r/src'',
      targetPackages = [''a/pkg''], generatedFilePrefix = ''bazel-out/'',
      generatedFileMapper = None\<rparr>"

definition sampleFiles :: "LcovFile list" where
  "sampleFiles =
     [\<lparr>lcov_file = ''src/a/pkg/foo.go'', file_lines = \<lparr>found = 590, part_hit = 479, details = []\<rparr>\<rparr>,
      \<lparr>lcov_file = ''src/a/pkg/sub/baz.go'', file_lines = \<lparr>found = 7, part_hit = 5, details = []\<rparr>\<rparr>,
      \<lparr>lcov_file = ''src/a/pkg/bar.go'', file_lines = \<lparr>found = 259, part_hit = 244, details = []\<rparr>\<rparr>]"

subsection \<open>The test report converter\<close>

text \<open>
  The parsed report handed to \<^verbatim>\<open>testResultXMLToGoTestOutput\<close> has the shape
  \<^verbatim>\<open>testsuites/testsuite[@name]/testcase[@name,@time]\<close>, each case with optional
  \<^verbatim>\<open>failure\<close>, \<^verbatim>\<open>error\<close> and \<^verbatim>\<open>skipped\<close> children. A \<^verbatim>\<open>failure\<close> or \<^verbatim>\<open>error\<close> child
  is a list of entries, and the source reads the free text of an entry as \<^verbatim>\<open>entry._\<close>,
  which is absent when the element carries no text: an entry is a \<^typ>\<open>string option\<close>.
  The document is the list \<^verbatim>\<open>resultData.testsuites.testsuite\<close>.
\<close>

record TestCaseXML =
  tc_name :: string
  tc_time :: string
  tc_failure :: "string option list option"
  tc_error :: "string option list option"
  tc_skipped :: bool

record TestSuiteXML =
  suite_name :: string
  testcase :: "TestCaseXML list option"

type_synonym TestResultXML = "TestSuiteXML list"

text \<open>
  \<^verbatim>\<open>Elapsed\<close> is \<^verbatim>\<open>Number(currTestCase.$.time)\<close>, a floating point number: it is kept as
  the conversion applied to the text of the attribute.
\<close>

datatype js_number = Number string

record GoTestOutput =
  Action :: string
  Output :: "string option"
  Package :: string
  Test :: string
  Elapsed :: "js_number option"

text \<open>\<^verbatim>\<open>text.split('\n')\<close>: the pieces between line feeds; the empty string has one piece.\<close>

fun split_nl :: "string \<Rightarrow> string list" where
  "split_nl [] = [[]]"
| "split_nl (c # cs) =
     (if c = CHR 0x0A then [] # split_nl cs
      else (case split_nl cs of [] \<Rightarrow> [[c]] | piece # pieces \<Rightarrow> (c # piece) # pieces))"

text \<open>
  \<^verbatim>\<open>entries.forEach((entry) => messages.push(...entry._.split('\n')))\<close>; an entry without
  text makes \<^verbatim>\<open>entry._.split\<close> throw a TypeError.
\<close>

fun pushEntries :: "string option list \<Rightarrow> string list \<Rightarrow> js_error + string list" where
  "pushEntries [] messages = Inr messages"
| "pushEntries (entry # rest) messages =
     (case entry of
        None \<Rightarrow> Inl TypeError
      | Some text \<Rightarrow> pushEntries rest (messages @ split_nl text))"

text \<open>The action of a test case and its messages.\<close>

definition caseOutcome :: "TestCaseXML \<Rightarrow> js_error + string \<times> string list" where
  "caseOutcome currTestCase =
     (case tc_failure currTestCase of
        Some entries \<Rightarrow>
          (case pushEntries entries [] of
             Inl e \<Rightarrow> Inl e
           | Inr messages \<Rightarrow> Inr (''fail'', messages))
      | None \<Rightarrow>
          (case tc_error currTestCase of
             Some entries \<Rightarrow>
               (case pushEntries entries [] of
                  Inl e \<Rightarrow> Inl e
                | Inr messages \<Rightarrow> Inr (''errored'', messages))
           | None \<Rightarrow>
               if tc_skipped currTestCase then Inr (''skip'', []) else Inr (''pass'', [])))"

definition outputEvent :: "string \<Rightarrow> TestCaseXML \<Rightarrow> string \<Rightarrow> GoTestOutput" where
  "outputEvent currPackage currTestCase message =
     \<lparr>Action = ''output'', Output = Some (message @ [CHR 0x0A]), Package = currPackage,
      Test = tc_name currTestCase, Elapsed = None\<rparr>"

definition finalEvent :: "string \<Rightarrow> string \<Rightarrow> TestCaseXML \<Rightarrow> GoTestOutput" where
  "finalEvent action currPackage currTestCase =
     \<lparr>Action = action, Output = None, Package = currPackage,
      Test = tc_name currTestCase, Elapsed = Some (Number (tc_time currTestCase))\<rparr>"

fun pushMessages ::
  "string \<Rightarrow> TestCaseXML \<Rightarrow> string list \<Rightarrow> GoTestOutput list \<Rightarrow> GoTestOutput list" where
  "pushMessages currPackage currTestCase [] results = results"
| "pushMessages currPackage currTestCase (message # rest) results =
     pushMessages currPackage currTestCase rest
       (results @ [outputEvent currPackage currTestCase message])"

fun testcaseLoop ::
  "string \<Rightarrow> TestCaseXML list \<Rightarrow> GoTestOutput list \<Rightarrow> js_error + GoTestOutput list" where
  "testcaseLoop currPackage [] results = Inr results"
| "testcaseLoop currPackage (currTestCase # rest) results =
     (case caseOutcome currTestCase of
        Inl e \<Rightarrow> Inl e
      | Inr (action, messages) \<Rightarrow>
          testcaseLoop currPackage rest
            (pushMessages currPackage currTestCase messages results
               @ [finalEvent action currPackage currTestCase]))"

fun suiteLoop :: "TestSuiteXML list \<Rightarrow> GoTestOutput list \<Rightarrow> js_error + GoTestOutput list" where
  "suiteLoop [] results = Inr results"
| "suiteLoop (suite # rest) results =
     (case testcase suite of
        None \<Rightarrow> suiteLoop rest results
      | Some cases \<Rightarrow>
          (case testcaseLoop (suite_name suite) cases results of
             Inl e \<Rightarrow> Inl e
           | Inr results' \<Rightarrow> suiteLoop rest results'))"

definition testResultXMLToGoTestOutput :: "TestResultXML \<Rightarrow> js_error + GoTestOutput list" where
  "testResultXMLToGoTestOutput resultData = suiteLoop resultData []"

text \<open>A report with one failing case whose text has an empty line in the middle.\<close>

definition sampleFailingCase :: TestCaseXML where
  "sampleFailingCase =
     \<lparr>tc_name = ''TestExampleCase'', tc_time = ''0.33'',
      tc_failure = Some [Some [CHR ''a'', CHR 0x0A, CHR 0x0A, CHR ''b'']],
      tc_error = None, tc_skipped = False\<rparr>"

definition sampleReport :: TestResultXML where
  "sampleReport =
     [\<lparr>suite_name = ''empty/pkg'', testcase = None\<rparr>,
      \<lparr>suite_name = ''code/pkg'', testcase = Some [sampleFailingCase]\<rparr>]"

subsection \<open>The error message collector\<close>

text \<open>
  The three regular expressions of \<^verbatim>\<open>getErrorMessageCollector\<close>, on strings of code units
  below 256: \<^verbatim>\<open>\s\<close> is one of the white space characters (tab, line feed, vertical tab,
  form feed, carriage return, space, no-break space), a line terminator is a line feed or
  a carriage return, \<^verbatim>\<open>\d\<close> is a decimal digit and \<^verbatim>\<open>.\<close> is any character but a line
  terminator.
\<close>

definition isWhiteSpace :: "char \<Rightarrow> bool" where
  "isWhiteSpace c \<longleftrightarrow>
     c \<in> {CHR 0x09, CHR 0x0A, CHR 0x0B, CHR 0x0C, CHR 0x0D, CHR 0x20, CHR 0xA0}"

definition isLineTerminator :: "char \<Rightarrow> bool" where
  "isLineTerminator c \<longleftrightarrow> c = CHR 0x0A \<or> c = CHR 0x0D"

definition isDigit :: "char \<Rightarrow> bool" where
  "isDigit c \<longleftrightarrow> c \<in> set ''0123456789''"

text \<open>
  \<^verbatim>\<open>(ERROR:|Internal error thrown during build.)\s\<close> matched at the head of a string.
\<close>

definition errorHere :: "string \<Rightarrow> bool" where
  "errorHere s \<longleftrightarrow>
     (prefix ''ERROR:'' s \<and>
        (case drop (length ''ERROR:'') s of [] \<Rightarrow> False | c # _ \<Rightarrow> isWhiteSpace c)) \<or>
     (prefix ''Internal error thrown during build'' s \<and>
        (case drop (length ''Internal error thrown during build'') s of
           d # c # _ \<Rightarrow> \<not> isLineTerminator d \<and> isWhiteSpace c
         | _ \<Rightarrow> False))"

text \<open>
  \<^verbatim>\<open>regError.exec(msg)\<close> for \<^verbatim>\<open>/^(ERROR:|Internal error thrown during build.)\s/m\<close>: the
  index of the leftmost match, which starts at the head of the string or right after a
  line terminator. The first argument says whether the current position starts a line,
  the last is the index of the current position.
\<close>

fun regErrorSearch :: "bool \<Rightarrow> string \<Rightarrow> nat \<Rightarrow> nat option" where
  "regErrorSearch lineStart [] i = None"
| "regErrorSearch lineStart (c # cs) i =
     (if lineStart \<and> errorHere (c # cs) then Some i
      else regErrorSearch (isLineTerminator c) cs (i + 1))"

definition regError_exec :: "string \<Rightarrow> nat option" where
  "regError_exec msg = regErrorSearch True msg 0"

text \<open>\<^verbatim>\<open>/^(DEBUG|INFO|WARN):/.test(msg)\<close> and \<^verbatim>\<open>/^\[\d+ \/ \d+\]/.test(msg)\<close>.\<close>

definition regNonErrorLog_test :: "string \<Rightarrow> bool" where
  "regNonErrorLog_test msg \<longleftrightarrow>
     prefix ''DEBUG:'' msg \<or> prefix ''INFO:'' msg \<or> prefix ''WARN:'' msg"

definition regProgress_test :: "string \<Rightarrow> bool" where
  "regProgress_test msg \<longleftrightarrow>
     (case msg of
        [] \<Rightarrow> False
      | c # afterBracket \<Rightarrow>
          c = CHR ''['' \<and>
          takeWhile isDigit afterBracket \<noteq> [] \<and>
          (let afterFirst = dropWhile isDigit afterBracket
           in prefix '' / '' afterFirst \<and>
              (let second = drop (length '' / '') afterFirst
               in takeWhile isDigit second \<noteq> [] \<and> prefix '']'' (dropWhile isDigit second))))"

text \<open>
  The closure returned by \<^verbatim>\<open>getErrorMessageCollector\<close> holds \<^verbatim>\<open>sawError\<close> and \<^verbatim>\<open>output\<close>;
  a call takes the state and returns the new one, whose \<^verbatim>\<open>output\<close> (here \<open>output_list\<close>) is the value the call
  returns. The argument is declared \<^verbatim>\<open>msg?: string\<close>: absent or a string.
\<close>

record Collector =
  sawError :: bool
  output_list :: "string list"

definition getErrorMessageCollector :: Collector where
  "getErrorMessageCollector = \<lparr>sawError = False, output_list = []\<rparr>"

definition updateErrorMessages :: "string option \<Rightarrow> Collector \<Rightarrow> Collector" where
  "updateErrorMessages msg c =
     (case msg of
        None \<Rightarrow> c
      | Some m \<Rightarrow>
          if m = [] then c
          else
            let errMsg = (case regError_exec m of Some index \<Rightarrow> drop index m | None \<Rightarrow> [])
            in if length errMsg > 0 then c\<lparr>output_list := output_list c @ [errMsg], sawError := True\<rparr>
               else if sawError c \<and> \<not> regNonErrorLog_test m \<and> \<not> regProgress_test m
               then c\<lparr>output_list := output_list c @ [m], sawError := False\<rparr>
               else c\<lparr>sawError := False\<rparr>)"



subsection \<open>The build event reader\<close>

text \<open>
  The value of \<^verbatim>\<open>JSON.parse(line)\<close>, and \<^verbatim>\<open>undefined\<close> for what a property access finds
  missing. Numbers are the integers. \<^verbatim>\<open>JSON.parse\<close> itself is a parameter of the reader:
  it gives \<open>None\<close> where the source's call throws a SyntaxError.
\<close>

datatype jsval =
  JUndefined
| JNull
| JBool bool
| JNum int
| JStr string
| JArr "jsval list"
| JObj "(string \<times> jsval) list"

fun truthy :: "jsval \<Rightarrow> bool" where
  "truthy JUndefined = False"
| "truthy JNull = False"
| "truthy (JBool b) = b"
| "truthy (JNum n) = (n \<noteq> 0)"
| "truthy (JStr s) = (s \<noteq> [])"
| "truthy (JArr xs) = True"
| "truthy (JObj members) = True"

text \<open>
  \<^verbatim>\<open>v.k\<close> for the property names the reader uses: a TypeError on \<^verbatim>\<open>undefined\<close> and
  \<^verbatim>\<open>null\<close>, the field of an object, \<^verbatim>\<open>undefined\<close> otherwise. \<open>getPath\<close> is a chain
  \<^verbatim>\<open>v.k1.k2\<close>.
\<close>

fun getProp :: "jsval \<Rightarrow> string \<Rightarrow> js_error + jsval" where
  "getProp JUndefined k = Inl TypeError"
| "getProp JNull k = Inl TypeError"
| "getProp (JObj members) k = Inr (case map_of members k of Some v \<Rightarrow> v | None \<Rightarrow> JUndefined)"
| "getProp v k = Inr JUndefined"

fun getPath :: "jsval \<Rightarrow> string list \<Rightarrow> js_error + jsval" where
  "getPath v [] = Inr v"
| "getPath v (k # ks) = (case getProp v k of Inl e \<Rightarrow> Inl e | Inr w \<Rightarrow> getPath w ks)"

text \<open>
  \<^verbatim>\<open>BuildEventOutputs\<close>. The fields that the source fills from the parsed record hold
  whatever value the record has there; \<^verbatim>\<open>exitCode\<close> starts as \<^verbatim>\<open>ExitCode.FailedToParse\<close>,
  which is \<open>-1\<close>, and the two optional fields start as \<^verbatim>\<open>undefined\<close>.
\<close>

record BuildEventOutputs =
  testXMLPaths :: "string list"
  errorMessages :: "string list"
  exitCode :: jsval
  workspaceDirectory :: jsval
  localExecRoot :: jsval
  genDir :: jsval

text \<open>
  The state of one call of \<^verbatim>\<open>processBuildEvents\<close>: the outputs, the collector, the lines
  appended to the output channel, and whether \<^verbatim>\<open>lineReader.close()\<close> has been called.
\<close>

record ReaderState =
  outputs :: BuildEventOutputs
  collector :: Collector
  channel :: "string list"
  closed :: bool

definition initialReaderState :: ReaderState where
  "initialReaderState =
     \<lparr>outputs =
        \<lparr>testXMLPaths = [], errorMessages = [], exitCode = JNum (- 1),
         workspaceDirectory = JStr [], localExecRoot = JUndefined, genDir = JUndefined\<rparr>,
      collector = getErrorMessageCollector, channel = [], closed = False\<rparr>"

text \<open>
  \<^verbatim>\<open>parsed.id.buildFinished && (outputs.exitCode = parsed.finished.exitCode.code || 0)\<close>
\<close>

definition setExitCode :: "jsval \<Rightarrow> ReaderState \<Rightarrow> js_error + ReaderState" where
  "setExitCode parsed st =
     (case getPath parsed [''id'', ''buildFinished''] of
        Inl e \<Rightarrow> Inl e
      | Inr buildFinished \<Rightarrow>
          if truthy buildFinished
          then (case getPath parsed [''finished'', ''exitCode'', ''code''] of
                  Inl e \<Rightarrow> Inl e
                | Inr code \<Rightarrow>
                    Inr (st\<lparr>outputs := (outputs st)
                              \<lparr>exitCode := (if truthy code then code else JNum 0)\<rparr>\<rparr>))
          else Inr st)"

text \<open>
  \<^verbatim>\<open>outputs.errorMessages = updateErrorMessages(parsed.progress?.stderr)\<close>. The text is a
  string in the build event protocol and the collector's argument is declared so. Of the
  other values, \<^verbatim>\<open>undefined\<close>, \<^verbatim>\<open>null\<close>, \<^verbatim>\<open>false\<close> and \<^verbatim>\<open>0\<close> leave the collector as it is
  in the source too (the test \<^verbatim>\<open>!msg\<close>); \<^verbatim>\<open>true\<close>, other numbers, arrays and objects are
  outside the declared type and are taken as absent.
\<close>

definition stderrText :: "jsval \<Rightarrow> string option" where
  "stderrText v = (case v of JStr s \<Rightarrow> Some s | _ \<Rightarrow> None)"

definition progressStderr :: "jsval \<Rightarrow> js_error + jsval" where
  "progressStderr parsed =
     (case getProp parsed ''progress'' of
        Inl e \<Rightarrow> Inl e
      | Inr progress \<Rightarrow>
          if progress = JUndefined \<or> progress = JNull then Inr JUndefined
          else getProp progress ''stderr'')"

definition collectStderr :: "jsval \<Rightarrow> ReaderState \<Rightarrow> js_error + ReaderState" where
  "collectStderr parsed st =
     (case progressStderr parsed of
        Inl e \<Rightarrow> Inl e
      | Inr stderr \<Rightarrow>
          let c = updateErrorMessages (stderrText stderr) (collector st)
          in Inr (st\<lparr>collector := c, outputs := (outputs st)\<lparr>errorMessages := output_list c\<rparr>\<rparr>))"

text \<open>\<^verbatim>\<open>uri.replace(/^(file:\/\/)/, '')\<close>\<close>

definition stripFileScheme :: "string \<Rightarrow> string" where
  "stripFileScheme uri =
     (if prefix ''file://'' uri then drop (length ''file://'') uri else uri)"

text \<open>
  The loop over \<^verbatim>\<open>parsed.testResult.testActionOutput\<close>. A throw inside the loop keeps the
  paths pushed before it. \<^verbatim>\<open>uri.replace\<close> is a function only when \<^verbatim>\<open>uri\<close> is a string.
\<close>

fun pushTestXMLPaths :: "jsval list \<Rightarrow> ReaderState \<Rightarrow> js_error option \<times> ReaderState" where
  "pushTestXMLPaths [] st = (None, st)"
| "pushTestXMLPaths (testActionOutput # rest) st =
     (case getProp testActionOutput ''name'' of
        Inl e \<Rightarrow> (Some e, st)
      | Inr name \<Rightarrow>
          if name = JStr ''test.xml''
          then (case getProp testActionOutput ''uri'' of
                  Inl e \<Rightarrow> (Some e, st)
                | Inr (JStr uri) \<Rightarrow>
                    pushTestXMLPaths rest
                      (st\<lparr>outputs := (outputs st)
                            \<lparr>testXMLPaths := testXMLPaths (outputs st) @ [stripFileScheme uri]\<rparr>\<rparr>)
                | Inr _ \<Rightarrow> (Some TypeError, st))
          else pushTestXMLPaths rest st)"

text \<open>
  \<^verbatim>\<open>for (const testActionOutput of parsed.testResult.testActionOutput)\<close>: an array is
  iterated by the loop above; a string can be iterated too, and its characters have no
  \<^verbatim>\<open>name\<close>; iterating anything else throws.
\<close>

definition iterateTestActionOutput :: "jsval \<Rightarrow> ReaderState \<Rightarrow> js_error option \<times> ReaderState" where
  "iterateTestActionOutput testActionOutputs st =
     (case testActionOutputs of
        JArr xs \<Rightarrow> pushTestXMLPaths xs st
      | JStr s \<Rightarrow> (None, st)
      | _ \<Rightarrow> (Some TypeError, st))"

text \<open>The four branches of the chain that follows, one definition for each.\<close>

definition storeLocalExecRoot :: "jsval \<Rightarrow> ReaderState \<Rightarrow> js_error option \<times> ReaderState" where
  "storeLocalExecRoot parsed st =
     (case getPath parsed [''workspaceInfo'', ''localExecRoot''] of
        Inl e \<Rightarrow> (Some e, st)
      | Inr v \<Rightarrow> (None, st\<lparr>outputs := (outputs st)\<lparr>localExecRoot := v\<rparr>\<rparr>))"

definition storeWorkspaceDirectory :: "jsval \<Rightarrow> ReaderState \<Rightarrow> js_error option \<times> ReaderState" where
  "storeWorkspaceDirectory parsed st =
     (case getPath parsed [''started'', ''workspaceDirectory''] of
        Inl e \<Rightarrow> (Some e, st)
      | Inr v \<Rightarrow> (None, st\<lparr>outputs := (outputs st)\<lparr>workspaceDirectory := v\<rparr>\<rparr>))"

definition storeTestXMLPaths :: "jsval \<Rightarrow> ReaderState \<Rightarrow> js_error option \<times> ReaderState" where
  "storeTestXMLPaths parsed st =
     (case getPath parsed [''testResult'', ''testActionOutput''] of
        Inl e \<Rightarrow> (Some e, st)
      | Inr testActionOutputs \<Rightarrow> iterateTestActionOutput testActionOutputs st)"

definition storeGenDir :: "jsval \<Rightarrow> ReaderState \<Rightarrow> js_error option \<times> ReaderState" where
  "storeGenDir parsed st =
     (case getPath parsed [''configuration'', ''makeVariable'', ''GENDIR''] of
        Inl e \<Rightarrow> (Some e, st)
      | Inr v \<Rightarrow> (None, st\<lparr>outputs := (outputs st)\<lparr>genDir := v\<rparr>\<rparr>))"

text \<open>
  The chain \<^verbatim>\<open>if (parsed.id.workspace) ... else if (parsed.id.started) ... else if
  (parsed.id.testResult) ... else if (parsed.id.configuration) ...\<close>.
\<close>

definition storeEventData :: "jsval \<Rightarrow> ReaderState \<Rightarrow> js_error option \<times> ReaderState" where
  "storeEventData parsed st =
     (case getPath parsed [''id'', ''workspace''] of
        Inl e \<Rightarrow> (Some e, st)
      | Inr workspace \<Rightarrow>
     if truthy workspace then storeLocalExecRoot parsed st
     else
     (case getPath parsed [''id'', ''started''] of
        Inl e \<Rightarrow> (Some e, st)
      | Inr started \<Rightarrow>
     if truthy started then storeWorkspaceDirectory parsed st
     else
     (case getPath parsed [''id'', ''testResult''] of
        Inl e \<Rightarrow> (Some e, st)
      | Inr testResult \<Rightarrow>
     if truthy testResult then storeTestXMLPaths parsed st
     else
     (case getPath parsed [''id'', ''configuration''] of
        Inl e \<Rightarrow> (Some e, st)
      | Inr configuration \<Rightarrow>
     if truthy configuration then storeGenDir parsed st
     else (None, st)))))"

text \<open>
  The body of the \<^verbatim>\<open>try\<close> block after \<^verbatim>\<open>JSON.parse\<close>: the exception, if one is thrown,
  and the state at that point.
\<close>

definition tryBody :: "jsval \<Rightarrow> ReaderState \<Rightarrow> js_error option \<times> ReaderState" where
  "tryBody parsed st =
     (case setExitCode parsed st of
        Inl e \<Rightarrow> (Some e, st)
      | Inr st1 \<Rightarrow>
          (case collectStderr parsed st1 of
             Inl e \<Rightarrow> (Some e, st1)
           | Inr st2 \<Rightarrow> storeEventData parsed st2))"

definition malformedMessage :: "string \<Rightarrow> string" where
  "malformedMessage buildEventsFile =
     ''ERROR: Unable to finish parsing build events due to malformed JSON in ''
     @ buildEventsFile @ ''. Test results in the UI may be incomplete.''"

text \<open>The \<^verbatim>\<open>catch\<close> block: one line on the output channel, and \<^verbatim>\<open>lineReader.close()\<close>.\<close>

definition catchBlock :: "string \<Rightarrow> ReaderState \<Rightarrow> ReaderState" where
  "catchBlock buildEventsFile st =
     st\<lparr>channel := channel st @ [malformedMessage buildEventsFile], closed := True\<rparr>"

text \<open>The listener of the \<^verbatim>\<open>line\<close> event.\<close>

definition onLine ::
  "(string \<Rightarrow> jsval option) \<Rightarrow> string \<Rightarrow> string \<Rightarrow> ReaderState \<Rightarrow> ReaderState" where
  "onLine JSON_parse buildEventsFile l st =
     (case JSON_parse l of
        None \<Rightarrow> catchBlock buildEventsFile st
      | Some parsed \<Rightarrow>
          (case tryBody parsed st of
             (None, st') \<Rightarrow> st'
           | (Some e, st') \<Rightarrow> catchBlock buildEventsFile st'))"

text \<open>
  The line reader takes the file from a stream, chunk by chunk. For each chunk it calls
  the listener on every line that the chunk completes, one call after the other.
  \<^verbatim>\<open>lineReader.close()\<close> marks the reader closed, emits \<^verbatim>\<open>close\<close>, which resolves the
  promise with the object \<^verbatim>\<open>outputs\<close>, and detaches the reader from the stream: no later
  chunk is read. The lines of the chunk at hand are still delivered, and the listener
  still changes \<^verbatim>\<open>outputs\<close> and writes to the channel on them, before the caller of
  \<^verbatim>\<open>processBuildEvents\<close> runs again and reads the outputs. A second \<^verbatim>\<open>close()\<close> does
  nothing.

  \<open>emitLines\<close> is the delivery of the lines of one chunk, \<open>readChunks\<close> the reading of the
  stream. Where the stream cuts the file is not in the hands of the source, so the file
  is given as \<open>fileChunks\<close>: for each \<^verbatim>\<open>data\<close> event of the stream the lines that it
  completes, and a last line without a terminator, which comes with the end of the
  stream, as a group of its own. A file shorter than the buffer of the stream (64 KiB) is
  one chunk. The file is readable here, so the stream can be created. The result is the
  outputs and the lines appended to the output channel.
\<close>

fun emitLines ::
  "(string \<Rightarrow> jsval option) \<Rightarrow> string \<Rightarrow> string list \<Rightarrow> ReaderState \<Rightarrow> ReaderState" where
  "emitLines JSON_parse buildEventsFile [] st = st"
| "emitLines JSON_parse buildEventsFile (l # rest) st =
     emitLines JSON_parse buildEventsFile rest (onLine JSON_parse buildEventsFile l st)"

fun readChunks ::
  "(string \<Rightarrow> jsval option) \<Rightarrow> string \<Rightarrow> string list list \<Rightarrow> ReaderState \<Rightarrow> ReaderState" where
  "readChunks JSON_parse buildEventsFile [] st = st"
| "readChunks JSON_parse buildEventsFile (chunk # rest) st =
     (if closed st then st
      else readChunks JSON_parse buildEventsFile rest
             (emitLines JSON_parse buildEventsFile chunk st))"

definition processBuildEvents ::
  "(string \<Rightarrow> jsval option) \<Rightarrow> string \<Rightarrow> string list list \<Rightarrow>
   BuildEventOutputs \<times> string list" where
  "processBuildEvents JSON_parse buildEventsFile fileChunks =
     (let st = readChunks JSON_parse buildEventsFile fileChunks initialReaderState
      in (outputs st, channel st))"

text \<open>
  Words for the records of claim C5. A record's \<^verbatim>\<open>id\<close> selects a kind when the tag of the
  kind is present and truthy; a field is absent when it is missing or \<^verbatim>\<open>null\<close>.
  \<open>chainPayload\<close> is the payload field of the kind that the chain of \<^verbatim>\<open>storeEventData\<close>
  takes, the first selected one.
\<close>

definition selects :: "jsval \<Rightarrow> string \<Rightarrow> bool" where
  "selects v tag \<longleftrightarrow> (case getPath v [''id'', tag] of Inl e \<Rightarrow> False | Inr x \<Rightarrow> truthy x)"

definition absent :: "jsval \<Rightarrow> string \<Rightarrow> bool" where
  "absent v field \<longleftrightarrow>
     (case getProp v field of Inl e \<Rightarrow> True | Inr x \<Rightarrow> x = JUndefined \<or> x = JNull)"

definition lacksId :: "jsval \<Rightarrow> bool" where
  "lacksId v \<longleftrightarrow> absent v ''id''"

definition chainPayload :: "jsval \<Rightarrow> string option" where
  "chainPayload v =
     (if selects v ''workspace'' then Some ''workspaceInfo''
      else if selects v ''started'' then Some ''started''
      else if selects v ''testResult'' then Some ''testResult''
      else if selects v ''configuration'' then Some ''configuration''
      else None)"

text \<open>
  The outputs of a test result record that are named \<^verbatim>\<open>test.xml\<close>, and the path of such
  an output.
\<close>

definition isReport :: "jsval \<Rightarrow> bool" where
  "isReport testActionOutput \<longleftrightarrow> getProp testActionOutput ''name'' = Inr (JStr ''test.xml'')"

definition namedReports :: "jsval \<Rightarrow> jsval list" where
  "namedReports v =
     (if chainPayload v = Some ''testResult''
      then (case getPath v [''testResult'', ''testActionOutput''] of
              Inr (JArr testActionOutputs) \<Rightarrow> filter isReport testActionOutputs
            | _ \<Rightarrow> [])
      else [])"

definition reportPath :: "jsval \<Rightarrow> string" where
  "reportPath testActionOutput =
     (case getProp testActionOutput ''uri'' of
        Inr (JStr uri) \<Rightarrow> stripFileScheme uri
      | _ \<Rightarrow> [])"

definition lineReports :: "(string \<Rightarrow> jsval option) \<Rightarrow> string \<Rightarrow> jsval list" where
  "lineReports JSON_parse l = (case JSON_parse l of None \<Rightarrow> [] | Some v \<Rightarrow> namedReports v)"

text \<open>
  The listener handles a line when \<^verbatim>\<open>JSON.parse\<close> returns and no statement of the
  \<^verbatim>\<open>try\<close> block throws on the record. Whether a statement throws depends on the record
  and not on the state, so the initial state stands for any.
\<close>

definition handled :: "(string \<Rightarrow> jsval option) \<Rightarrow> string \<Rightarrow> bool" where
  "handled JSON_parse l \<longleftrightarrow>
     (case JSON_parse l of
        None \<Rightarrow> False
      | Some parsed \<Rightarrow> fst (tryBody parsed initialReaderState) = None)"

text \<open>
  A sample stream, by the names of its lines. \<open>started\<close> stands for the line
  \<^verbatim>\<open>{"id":{"started":{}},"started":{"workspaceDirectory":"/home/user/code"}}\<close>, \<open>result\<close>
  for a test result record with the outputs \<^verbatim>\<open>test.log\<close> and \<^verbatim>\<open>test.xml\<close>, \<open>finished\<close> for
  \<^verbatim>\<open>{"id":{"buildFinished":{}},"finished":{"exitCode":{"name":"SUCCESS"}}}\<close> (the code 0
  is left out of the JSON text, as the protocol does with default values), \<open>number\<close> for
  \<^verbatim>\<open>5\<close>, \<open>noinfo\<close> for \<^verbatim>\<open>{"id":{"workspace":{}}}\<close>, and every other name, such as
  \<open>garbage\<close>, for a text that \<^verbatim>\<open>JSON.parse\<close> rejects.
\<close>

definition sampleParse :: "string \<Rightarrow> jsval option" where
  "sampleParse = map_of
     [(''started'',
       JObj [(''id'', JObj [(''started'', JObj [])]),
             (''started'', JObj [(''workspaceDirectory'', JStr ''/home/user/code'')])]),
      (''result'',
       JObj [(''id'', JObj [(''testResult'', JObj [(''run'', JNum 1)])]),
             (''testResult'',
              JObj [(''testActionOutput'',
                     JArr [JObj [(''name'', JStr ''test.log''), (''uri'', JStr ''file:///out/test.log'')],
                           JObj [(''name'', JStr ''test.xml''), (''uri'', JStr ''file:///out/test.xml'')]])])]),
      (''finished'',
       JObj [(''id'', JObj [(''buildFinished'', JObj [])]),
             (''finished'', JObj [(''exitCode'', JObj [(''name'', JStr ''SUCCESS'')])])]),
      (''number'', JNum 5),
      (''noinfo'', JObj [(''id'', JObj [(''workspace'', JObj [])])])]"

subsection \<open>The Bazel argument vector\<close>

datatype BazelCommands = CmdTest | CmdDebug | CmdCoverage | CmdBenchmark

definition commandVerb :: "BazelCommands \<Rightarrow> string" where
  "commandVerb cmd =
     (case cmd of
        CmdTest \<Rightarrow> ''test''
      | CmdDebug \<Rightarrow> ''debug''
      | CmdCoverage \<Rightarrow> ''coverage''
      | CmdBenchmark \<Rightarrow> ''run'')"

text \<open>
  The fields of \<^verbatim>\<open>TestConfig\<close> that \<^verbatim>\<open>getBazelArgs\<close> reads, and the port of the debug
  configuration. The arguments that \<^verbatim>\<open>getBazelTestEnvVars(testconfig.goConfig)\<close> makes
  from the settings are a parameter of \<open>getBazelArgs\<close>.
\<close>

record TestConfig =
  test_functions :: "string list option"
  flags :: "string list"
  applyCodeCoverage :: bool
  isBenchmark :: bool

record DebugConfiguration =
  port :: nat

fun decimal :: "nat \<Rightarrow> string" where
  "decimal n =
     (if n < 10 then [char_of (48 + n)]
      else decimal (n div 10) @ [char_of (48 + n mod 10)])"

declare decimal.simps [simp del]

text \<open>
  \<^verbatim>\<open>curr.replace(TEST_NAME_SPECIAL_CHARACTERS, '\\$&')\<close> with the global pattern
  \<^verbatim>\<open>/[.*+?^${}()|[\]\\]/g\<close>: a backslash before every special character.
\<close>

definition isSpecialCharacter :: "char \<Rightarrow> bool" where
  "isSpecialCharacter c \<longleftrightarrow> c \<in> set ''.*+?^${}()|[]'' \<or> c = CHR 0x5C"

fun escapeSpecialCharacters :: "string \<Rightarrow> string" where
  "escapeSpecialCharacters [] = []"
| "escapeSpecialCharacters (c # cs) =
     (if isSpecialCharacter c then CHR 0x5C # c # escapeSpecialCharacters cs
      else c # escapeSpecialCharacters cs)"

text \<open>
  \<^verbatim>\<open>.replace('/', '$/^')\<close>: the pattern is a string, so only the first slash is
  replaced.
\<close>

fun replaceFirstSlash :: "string \<Rightarrow> string" where
  "replaceFirstSlash [] = []"
| "replaceFirstSlash (c # cs) =
     (if c = CHR ''/'' then ''$/^'' @ cs else c # replaceFirstSlash cs)"

definition filterFunction :: "string \<Rightarrow> string" where
  "filterFunction fn = replaceFirstSlash (escapeSpecialCharacters fn)"

text \<open>\<^verbatim>\<open>filterFunctions.join('|')\<close>\<close>

fun joinBar :: "string list \<Rightarrow> string" where
  "joinBar [] = []"
| "joinBar [x] = x"
| "joinBar (x # y # rest) = x @ ''|'' @ joinBar (y # rest)"

definition testFilter :: "string list \<Rightarrow> string" where
  "testFilter fs =
     (case map filterFunction fs of
        [only] \<Rightarrow> ''--test_filter='' @ [CHR 0x27] @ ''^'' @ only @ ''$'' @ [CHR 0x27]
      | filterFunctions \<Rightarrow>
          ''--test_filter='' @ [CHR 0x27] @ ''^('' @ joinBar filterFunctions @ '')$'' @ [CHR 0x27])"

definition getBazelArgs ::
  "TestConfig \<Rightarrow> string list \<Rightarrow> string list \<Rightarrow> string \<Rightarrow> DebugConfiguration option \<Rightarrow> string list" where
  "getBazelArgs testconfig testEnvVars bazelTargets buildEventsFile debugConfig =
     (let bazelCmd =
            (if debugConfig \<noteq> None then CmdDebug
             else if applyCodeCoverage testconfig then CmdCoverage
             else if isBenchmark testconfig then CmdBenchmark
             else CmdTest);
          testFlags =
            [''--build_tests_only'', ''--test_env=GO_TEST_WRAP_TESTV=1'',
             ''--build_event_json_file='' @ buildEventsFile,
             ''--build_event_json_file_path_conversion=no''];
          commandFlags =
            (case bazelCmd of
               CmdDebug \<Rightarrow>
                 (case debugConfig of
                    Some config \<Rightarrow> [''--port='' @ decimal (port config)]
                  | None \<Rightarrow> [])
             | CmdCoverage \<Rightarrow>
                 [''--combined_report=lcov'',
                  ''--@io_bazel_rules_go//go/config:cover_format=lcov''] @ testFlags
             | CmdBenchmark \<Rightarrow> testFlags
             | CmdTest \<Rightarrow> testFlags);
          filterFlags =
            (case test_functions testconfig of
               Some fs \<Rightarrow> if length bazelTargets = 1 then [testFilter fs] else []
             | None \<Rightarrow> [])
      in [commandVerb bazelCmd] @ commandFlags @ [''--tool_tag=vscode-go-bazel''] @ filterFlags
         @ flags testconfig @ testEnvVars @ bazelTargets
         @ (if isBenchmark testconfig then [''-- -test.bench=.''] else []))"

text \<open>
  What claim C7 describes: every slash of the escaped name replaced by the anchoring
  \<open>$/^\<close>.
\<close>

fun anchorEverySegment :: "string \<Rightarrow> string" where
  "anchorEverySegment [] = []"
| "anchorEverySegment (c # cs) =
     (if c = CHR ''/'' then ''$/^'' @ anchorEverySegment cs else c # anchorEverySegment cs)"

definition sampleTestConfig :: TestConfig where
  "sampleTestConfig =
     \<lparr>test_functions = Some [''TestA/sub1/sub2''], flags = [''--user_sample_flag=TRUE''],
      applyCodeCoverage = False, isBenchmark = False\<rparr>"

subsection \<open>Test items and the resolution of test names\<close>

text \<open>
  A \<^verbatim>\<open>TestItem\<close> is an object with identity: a reference into the store of the resolver.
  Its \<^verbatim>\<open>id\<close>, \<^verbatim>\<open>label\<close>, \<^verbatim>\<open>parent\<close> and \<^verbatim>\<open>children\<close> are the fields that the name
  resolution reads. The resolver holds the items, the number of items created so far
  (the references below it are in use) and the marker sets \<^verbatim>\<open>isTestSuiteFunc\<close> and
  \<^verbatim>\<open>isDynamicSubtest\<close>.
\<close>

type_synonym ref = nat

record TestItem =
  item_id :: string
  item_label :: string
  item_parent :: "ref option"
  item_children :: "ref list"

record GoTestResolver =
  items :: "ref \<Rightarrow> TestItem"
  allocated :: nat
  isTestSuiteFunc :: "ref set"
  isDynamicSubtest :: "ref set"

text \<open>
  Modelled from the spec: \<^verbatim>\<open>GoTest.parseId\<close> and \<^verbatim>\<open>GoTest.id\<close> of \<^verbatim>\<open>goTest/utils\<close> are not
  among the sources. The spec derives an id ``deterministically from kind + containing
  file/URI + dotted name''; the ids of the tests have the shape \<^verbatim>\<open>uri?kind#name\<close>. So the
  name of an id is what follows its first \<^verbatim>\<open>#\<close>, and the id of a subtest keeps what
  precedes the \<^verbatim>\<open>#\<close> in the id of its parent. The percent-encoding of the editor's URIs
  is left out.
\<close>

definition parseIdName :: "string \<Rightarrow> string" where
  "parseIdName i = drop 1 (dropWhile (\<lambda>c. c \<noteq> CHR ''#'') i)"

definition subtestId :: "string \<Rightarrow> string \<Rightarrow> string" where
  "subtestId parentId name = takeWhile (\<lambda>c. c \<noteq> CHR ''#'') parentId @ ''#'' @ name"

text \<open>
  Modelled from the spec: \<^verbatim>\<open>GoTestResolver.getOrCreateSubTest\<close> of \<^verbatim>\<open>goTest/resolve\<close> is
  not among the sources. The spec: ``get-or-create a dynamic-subtest child node keyed by
  the name-so-far (marking it in the dynamic-subtest set)''; ``creation is idempotent:
  re-resolving an already-created subtest path returns the same node rather than
  duplicating it''. So the child of the item whose id has that name is returned when
  there is one; otherwise a new item is created with the name in its id, added as the
  last child of the item and, when \<^verbatim>\<open>dynamic\<close> is set, marked as a dynamic subtest. The
  source of the runner allows for the result \<^verbatim>\<open>undefined\<close>; the spec names no case for
  it, and the model always returns an item.
\<close>

definition findChild :: "GoTestResolver \<Rightarrow> ref \<Rightarrow> string \<Rightarrow> ref option" where
  "findChild r item name =
     List.find (\<lambda>child. parseIdName (item_id (items r child)) = name)
       (item_children (items r item))"

definition getOrCreateSubTest ::
  "GoTestResolver \<Rightarrow> ref \<Rightarrow> string \<Rightarrow> string \<Rightarrow> bool \<Rightarrow> ref option \<times> GoTestResolver" where
  "getOrCreateSubTest r item label name dynamic =
     (case findChild r item name of
        Some existing \<Rightarrow> (Some existing, r)
      | None \<Rightarrow>
          let sub = allocated r;
              created = \<lparr>item_id = subtestId (item_id (items r item)) name, item_label = label,
                         item_parent = Some item, item_children = []\<rparr>;
              owner = (items r item)\<lparr>item_children := item_children (items r item) @ [sub]\<rparr>
          in (Some sub,
              r\<lparr>items := (items r)(sub := created, item := owner),
                allocated := Suc sub,
                isDynamicSubtest :=
                  (if dynamic then insert sub (isDynamicSubtest r) else isDynamicSubtest r)\<rparr>))"

text \<open>
  \<^verbatim>\<open>name.indexOf('/', fromIndex)\<close>, \<^verbatim>\<open>name.charAt(i)\<close> and \<^verbatim>\<open>name.substring(0, end)\<close>.
\<close>

definition indexOfSlash :: "string \<Rightarrow> int \<Rightarrow> int" where
  "indexOfSlash name fromIndex =
     (case List.find (\<lambda>i. name ! i = CHR ''/'') [nat fromIndex..<length name] of
        Some i \<Rightarrow> int i
      | None \<Rightarrow> - 1)"

definition charAt :: "string \<Rightarrow> int \<Rightarrow> string" where
  "charAt name i = (if 0 \<le> i \<and> i < int (length name) then [name ! nat i] else [])"

definition substring0 :: "string \<Rightarrow> int \<Rightarrow> string" where
  "substring0 name end = take (nat end) name"

text \<open>
  The first two statements of \<^verbatim>\<open>resolveSubtest\<close>: \<^verbatim>\<open>if (!segmentEnd) segmentEnd =
  name.indexOf('/', start); if (segmentEnd === -1) segmentEnd = name.length;\<close>. The
  optional argument is absent or a number, and \<^verbatim>\<open>!segmentEnd\<close> holds when it is absent
  or 0.
\<close>

definition currentSegmentEnd :: "string \<Rightarrow> int \<Rightarrow> int option \<Rightarrow> int" where
  "currentSegmentEnd name start segmentEnd =
     (let e = (case segmentEnd of
                 None \<Rightarrow> indexOfSlash name start
               | Some given \<Rightarrow> if given = 0 then indexOfSlash name start else given)
      in if e = - 1 then int (length name) else e)"

function resolveSubtest ::
  "GoTestResolver \<Rightarrow> ref \<Rightarrow> string \<Rightarrow> int \<Rightarrow> int option \<Rightarrow> ref option \<times> GoTestResolver" where
  "resolveSubtest r parent name start segmentEnd =
     (case getOrCreateSubTest r parent
             (substring0 name (currentSegmentEnd name start segmentEnd))
             (substring0 name (currentSegmentEnd name start segmentEnd)) True of
        (None, r') \<Rightarrow> (None, r')
      | (Some currentSubtest, r') \<Rightarrow>
          if charAt name (currentSegmentEnd name start segmentEnd) = ''/''
          then resolveSubtest r' currentSubtest name start
                 (Some (indexOfSlash name (currentSegmentEnd name start segmentEnd + 1)))
          else (Some currentSubtest, r'))"
  by pat_completeness auto
termination
proof (relation "measure (\<lambda>(r, parent, name, start, segmentEnd).
                   length name - nat (currentSegmentEnd name start segmentEnd))")
  show "wf (measure (\<lambda>(r, parent, name, start, segmentEnd).
              length name - nat (currentSegmentEnd name start segmentEnd)))"
    by simp
next
  fix r :: GoTestResolver and parent :: ref and name :: string and start :: int
    and segmentEnd :: "int option" and x :: "ref option \<times> GoTestResolver"
    and a :: "ref option" and r' :: GoTestResolver and currentSubtest :: ref
  let ?e = "currentSegmentEnd name start segmentEnd"
  let ?next = "indexOfSlash name (?e + 1)"
  assume slash: "charAt name ?e = ''/''"
  then have bounds: "0 \<le> ?e" "?e < int (length name)"
    by (auto simp: charAt_def split: if_splits)
  have found: "?next = - 1 \<or> (?e + 1 \<le> ?next \<and> ?next < int (length name))"
  proof (cases "List.find (\<lambda>i. name ! i = CHR ''/'') [nat (?e + 1)..<length name]")
    case None
    then show ?thesis by (simp add: indexOfSlash_def)
  next
    case (Some i)
    then have "i \<in> set [nat (?e + 1)..<length name]"
      by (auto simp: find_Some_iff in_set_conv_nth)
    with Some bounds show ?thesis by (auto simp: indexOfSlash_def)
  qed
  have "?e < currentSegmentEnd name start (Some ?next) \<and>
        currentSegmentEnd name start (Some ?next) \<le> int (length name)"
    using found bounds by (auto simp: currentSegmentEnd_def Let_def)
  with bounds
  have "length name - nat (currentSegmentEnd name start (Some ?next)) < length name - nat ?e"
    by linarith
  then
  show "((r', currentSubtest, name, start, Some ?next), (r, parent, name, start, segmentEnd))
        \<in> measure (\<lambda>(r, parent, name, start, segmentEnd).
                      length name - nat (currentSegmentEnd name start segmentEnd))"
    by simp
qed

declare resolveSubtest.simps [simp del]

text \<open>
  \<^verbatim>\<open>tests\<close> is a \<^verbatim>\<open>Record<string, TestItem>\<close>: its keys, in the order of
  \<^verbatim>\<open>Object.keys\<close>, each with its item. \<^verbatim>\<open>extractInstanceTestName\<close> of \<^verbatim>\<open>testUtils\<close> and
  \<^verbatim>\<open>resolveTestName\<close> of the super class \<^verbatim>\<open>GoTestRunner\<close> are not among the sources: they
  are the parameters \<open>extract\<close> and \<open>super\<close> of the functions below.

  The loop over the children of a suite, with \<^verbatim>\<open>matchingChild\<close> as its state: a child
  whose translated name is the name sets it; a child whose translated name and a slash
  start the name sets it to the subtest resolved under that child.
\<close>

fun childrenLoop ::
  "(string \<Rightarrow> string) \<Rightarrow> string \<Rightarrow> string \<Rightarrow> ref list \<Rightarrow> ref option \<times> GoTestResolver \<Rightarrow>
   ref option \<times> GoTestResolver" where
  "childrenLoop extract name existingTestName [] (matchingChild, r) = (matchingChild, r)"
| "childrenLoop extract name existingTestName (child # rest) (matchingChild, r) =
     (let testMethodName =
            existingTestName @ ''/'' @ extract (parseIdName (item_id (items r child)))
      in if name = testMethodName
         then childrenLoop extract name existingTestName rest (Some child, r)
         else if prefix (testMethodName @ ''/'') name
         then childrenLoop extract name existingTestName rest
                (resolveSubtest r child name (int (length testMethodName + 1)) None)
         else childrenLoop extract name existingTestName rest (matchingChild, r))"

text \<open>
  The first check in the body of the loop over \<^verbatim>\<open>tests\<close>: the item is a method of a known
  suite. \<open>None\<close> when the check does not return from \<^verbatim>\<open>resolveTestName\<close>.
\<close>

definition suiteMethodCheck ::
  "(string \<Rightarrow> string) \<Rightarrow> GoTestResolver \<Rightarrow> string \<Rightarrow> string \<Rightarrow> ref \<Rightarrow>
   (ref option \<times> GoTestResolver) option" where
  "suiteMethodCheck extract r name existingTestName item =
     (let testSuiteMethodName = extract existingTestName
      in case item_parent (items r item) of
           None \<Rightarrow> None
         | Some parent \<Rightarrow>
             if parent \<in> isTestSuiteFunc r \<and> testSuiteMethodName \<noteq> []
             then
               let suiteName = parseIdName (item_id (items r parent))
               in if name = suiteName @ ''/'' @ testSuiteMethodName then Some (Some item, r)
                  else if prefix (suiteName @ ''/'' @ testSuiteMethodName @ ''/'') name
                  then Some (resolveSubtest r item name
                               (int (length (suiteName @ ''/'' @ testSuiteMethodName @ ''/''))) None)
                  else None
             else None)"

fun testsLoop ::
  "(string \<Rightarrow> string) \<Rightarrow>
   (GoTestResolver \<Rightarrow> (string \<times> ref) list \<Rightarrow> string \<Rightarrow> ref option \<times> GoTestResolver) \<Rightarrow>
   (string \<times> ref) list \<Rightarrow> string \<Rightarrow> (string \<times> ref) list \<Rightarrow> GoTestResolver \<Rightarrow>
   ref option \<times> GoTestResolver" where
  "testsLoop extract super tests name [] r = super r tests name"
| "testsLoop extract super tests name ((existingTestName, item) # rest) r =
     (case suiteMethodCheck extract r name existingTestName item of
        Some result \<Rightarrow> result
      | None \<Rightarrow>
          if item \<in> isTestSuiteFunc r
          then (case childrenLoop extract name existingTestName
                       (item_children (items r item)) (None, r) of
                  (Some matchingChild, r') \<Rightarrow> (Some matchingChild, r')
                | (None, r') \<Rightarrow> testsLoop extract super tests name rest r')
          else testsLoop extract super tests name rest r)"

definition resolveTestName ::
  "(string \<Rightarrow> string) \<Rightarrow>
   (GoTestResolver \<Rightarrow> (string \<times> ref) list \<Rightarrow> string \<Rightarrow> ref option \<times> GoTestResolver) \<Rightarrow>
   GoTestResolver \<Rightarrow> (string \<times> ref) list \<Rightarrow> string \<Rightarrow> ref option \<times> GoTestResolver" where
  "resolveTestName extract super r tests name =
     (if name = [] then (None, r) else testsLoop extract super tests name tests r)"

definition formatTestCaseForFilter ::
  "(string \<Rightarrow> string) \<Rightarrow> GoTestResolver \<Rightarrow> string \<Rightarrow> ref option \<Rightarrow> string" where
  "formatTestCaseForFilter extract r testFunctionName currentTestCase =
     (case currentTestCase of
        None \<Rightarrow> testFunctionName
      | Some item \<Rightarrow>
          let testSuiteMethodName = extract testFunctionName
          in case item_parent (items r item) of
               None \<Rightarrow> testFunctionName
             | Some parent \<Rightarrow>
                 if parent \<in> isTestSuiteFunc r \<and> testSuiteMethodName \<noteq> []
                 then parseIdName (item_id (items r parent)) @ ''/'' @ testSuiteMethodName
                 else testFunctionName)"




text \<open>
  A sample: the suite \<open>MyTestSuite\<close> (item 0) with the method \<open>(*mySuiteType).TestCase1\<close>
  (item 1), and an extraction that strips the receiver \<open>(*mySuiteType).\<close>.
\<close>

definition sampleResolver :: GoTestResolver where
  "sampleResolver =
     \<lparr>items =
        (\<lambda>x. \<lparr>item_id = [], item_label = [], item_parent = None, item_children = []\<rparr>)
          (0 := \<lparr>item_id = ''file:///mod/file.go?test#MyTestSuite'', item_label = ''MyTestSuite'',
                 item_parent = None, item_children = [1]\<rparr>,
           1 := \<lparr>item_id = ''file:///mod/file.go?test#(*mySuiteType).TestCase1'',
                 item_label = ''TestCase1'', item_parent = Some 0, item_children = []\<rparr>),
      allocated = 2, isTestSuiteFunc = {0}, isDynamicSubtest = {}\<rparr>"

definition sampleExtract :: "string \<Rightarrow> string" where
  "sampleExtract s =
     (if prefix ''(*mySuiteType).'' s then drop (length ''(*mySuiteType).'') s else [])"

definition noSuper ::
  "GoTestResolver \<Rightarrow> (string \<times> ref) list \<Rightarrow> string \<Rightarrow> ref option \<times> GoTestResolver" where
  "noSuper r tests name = (None, r)"


definition sampleTests :: "(string \<times> ref) list" where
  "sampleTests = [(''MyTestSuite'', 0), (''(*mySuiteType).TestCase1'', 1)]"

text \<open>
  The parent of an item is a known suite: the condition \<^verbatim>\<open>parent &&
  this.resolver.isTestSuiteFunc.has(parent)\<close> of the two functions.
\<close>

definition parentIsKnownSuite :: "GoTestResolver \<Rightarrow> ref \<Rightarrow> bool" where
  "parentIsKnownSuite r item =
     (case item_parent (items r item) of
        None \<Rightarrow> False
      | Some parent \<Rightarrow> parent \<in> isTestSuiteFunc r)"
section \<open>Coverage: line records to editor ranges\<close>

lemma lcovLinesLoop_covered:
  "coveredOptions (lcovLinesLoop sc ls cov) =
     coveredOptions cov @
       concat (map (\<lambda>l. elaborate (lineRange l) (hit l) sc) (filter (\<lambda>l. hit l > 0) ls))"
  by (induction ls arbitrary: cov) (simp_all add: addLineDetails_def)

lemma lcovLinesLoop_uncovered:
  "uncoveredOptions (lcovLinesLoop sc ls cov) =
     uncoveredOptions cov @
       concat (map (\<lambda>l. elaborate (lineRange l) (hit l) sc) (filter (\<lambda>l. \<not> hit l > 0) ls))"
  by (induction ls arbitrary: cov) (simp_all add: addLineDetails_def)

lemma ranges_of_elaborate:
  "map dec_range (concat (map (\<lambda>l. elaborate (lineRange l) (hit l) sc) ls)) = map lineRange ls"
  by (induction ls) (simp_all add: elaborate_def)

lemma covered_ranges:
  "map dec_range (coveredOptions (lcovLinesToEditorRanges part sc)) =
     map lineRange (filter (\<lambda>l. hit l > 0) (details part))"
  by (simp add: lcovLinesToEditorRanges_def lcovLinesLoop_covered emptyCoverageData_def
      ranges_of_elaborate)

lemma uncovered_ranges:
  "map dec_range (uncoveredOptions (lcovLinesToEditorRanges part sc)) =
     map lineRange (filter (\<lambda>l. \<not> hit l > 0) (details part))"
  by (simp add: lcovLinesToEditorRanges_def lcovLinesLoop_uncovered emptyCoverageData_def
      ranges_of_elaborate)

lemma count_options:
  "length (coveredOptions (lcovLinesToEditorRanges part sc)) +
   length (uncoveredOptions (lcovLinesToEditorRanges part sc)) = length (details part)"
proof -
  have "length (map dec_range (coveredOptions (lcovLinesToEditorRanges part sc))) +
        length (map dec_range (uncoveredOptions (lcovLinesToEditorRanges part sc))) =
        length (details part)"
    unfolding covered_ranges uncovered_ranges
    by (simp add: sum_length_filter_compl)
  then show ?thesis by simp
qed

lemma single_line_ranges:
  assumes "d \<in> set (coveredOptions (lcovLinesToEditorRanges part sc)) \<union>
               set (uncoveredOptions (lcovLinesToEditorRanges part sc))"
  shows "isSingleLine (dec_range d)"
proof -
  from assms
  have "dec_range d \<in> set (map dec_range (coveredOptions (lcovLinesToEditorRanges part sc)))
      \<or> dec_range d \<in> set (map dec_range (uncoveredOptions (lcovLinesToEditorRanges part sc)))"
    by auto
  then have "dec_range d \<in> lineRange ` set (details part)"
    unfolding covered_ranges uncovered_ranges by auto
  then show ?thesis by (auto simp: isSingleLine_def lineRange_def)
qed

lemma sample_covered:
  "map (startLine \<circ> dec_range) (coveredOptions (lcovLinesToEditorRanges sampleLines sc)) = [29, 50]"
  by (simp add: lcovLinesToEditorRanges_def sampleLines_def emptyCoverageData_def
      addLineDetails_def elaborate_def lineRange_def)

lemma sample_uncovered:
  "map (startLine \<circ> dec_range) (uncoveredOptions (lcovLinesToEditorRanges sampleLines sc)) = [39]"
  by (simp add: lcovLinesToEditorRanges_def sampleLines_def emptyCoverageData_def
      addLineDetails_def elaborate_def lineRange_def)

text \<open>
  Claim C8, as the spec states it, puts the two covered ranges of the scenario
  \<open>{found:110, hit:100, details:[{line:30,hit:2},{line:40,hit:0},{line:51,hit:2}]}\<close> at the
  zero-based lines 29 and 51. The source converts a line number to zero-based by
  subtracting one, so line 51 of the report is line 50 of the editor: the covered ranges
  are not at 29 and 51.
\<close>

theorem lcovLinesToEditorRanges_sample_counterexample:
  "map (startLine \<circ> dec_range) (coveredOptions (lcovLinesToEditorRanges sampleLines False))
     \<noteq> [29, 51]"
  by (simp add: sample_covered)

text \<open>
  Claim C8, amended: for the scenario above \<open>lcovLinesToEditorRanges\<close> produces exactly two
  covered ranges, at the zero-based lines 29 and 50, and one uncovered range, at the
  zero-based line 39. For every input, every produced range starts and ends on the same
  line; the covered ranges are those of the detail lines with a positive hit count and
  the uncovered ranges those of the other detail lines, in order; and the number of
  covered decorations plus the number of uncovered ones is the number of detail lines.
\<close>

theorem lcovLinesToEditorRanges_ranges:
  "map (startLine \<circ> dec_range) (coveredOptions (lcovLinesToEditorRanges sampleLines showCounts))
     = [29, 50] \<and>
   map (startLine \<circ> dec_range) (uncoveredOptions (lcovLinesToEditorRanges sampleLines showCounts))
     = [39] \<and>
   (\<forall>d \<in> set (coveredOptions (lcovLinesToEditorRanges part showCounts)) \<union>
          set (uncoveredOptions (lcovLinesToEditorRanges part showCounts)).
      isSingleLine (dec_range d)) \<and>
   map dec_range (coveredOptions (lcovLinesToEditorRanges part showCounts)) =
     map lineRange (filter (\<lambda>l. hit l > 0) (details part)) \<and>
   map dec_range (uncoveredOptions (lcovLinesToEditorRanges part showCounts)) =
     map lineRange (filter (\<lambda>l. \<not> hit l > 0) (details part)) \<and>
   length (coveredOptions (lcovLinesToEditorRanges part showCounts)) +
   length (uncoveredOptions (lcovLinesToEditorRanges part showCounts)) = length (details part)"
  using sample_covered sample_uncovered single_line_ranges covered_ranges uncovered_ranges
    count_options
  by blast

theorem lcovLinesToEditorRanges_ranges_witness:
  "\<lparr>dec_range = \<lparr>startLine = 29, startCharacter = 0, endLine = 29, endCharacter = 1000\<rparr>,
     contentText = None\<rparr>
     \<in> set (coveredOptions (lcovLinesToEditorRanges sampleLines False)) \<union>
       set (uncoveredOptions (lcovLinesToEditorRanges sampleLines False)) \<and>
   isSingleLine \<lparr>startLine = 29, startCharacter = 0, endLine = 29, endCharacter = 1000\<rparr>"
proof -
  have "\<lparr>dec_range = \<lparr>startLine = 29, startCharacter = 0, endLine = 29, endCharacter = 1000\<rparr>,
          contentText = None\<rparr>
        \<in> set (coveredOptions (lcovLinesToEditorRanges sampleLines False)) \<union>
          set (uncoveredOptions (lcovLinesToEditorRanges sampleLines False))"
    by (simp add: lcovLinesToEditorRanges_def sampleLines_def emptyCoverageData_def
        addLineDetails_def elaborate_def lineRange_def)
  with lcovLinesToEditorRanges_ranges [of False sampleLines] show ?thesis
    by fastforce
qed

section \<open>Coverage: the rollup tree\<close>

lemma fst_set_mapSet: "fst ` set (mapSet k v ps) = insert k (fst ` set ps)"
  by (induction ps) auto

lemma distinct_mapSet: "distinct (map fst ps) \<Longrightarrow> distinct (map fst (mapSet k v ps))"
proof (induction ps)
  case Nil
  then show ?case by simp
next
  case (Cons p ps)
  have "fst p \<notin> fst ` set (mapSet k v ps)" if "fst p \<noteq> k"
    using that Cons.prems by (simp add: fst_set_mapSet)
  with Cons show ?case by auto
qed

lemma set_mapSet:
  "distinct (map fst ps) \<Longrightarrow> set (mapSet k v ps) = insert (k, v) {p \<in> set ps. fst p \<noteq> k}"
proof (induction ps)
  case Nil
  then show ?case by simp
next
  case (Cons p ps)
  then show ?case by (cases p) (auto simp: rev_image_eqI)
qed

lemma packageNode_other:
  "filePackage path config f \<noteq> pkg \<Longrightarrow>
   packageNode path config (files @ [f]) pkg = packageNode path config files pkg"
  by (simp add: packageNode_def)

lemma packageNode_add:
  "filePackage path config f = pkg \<Longrightarrow>
   packageNode path config (files @ [f]) pkg =
     addFileToNode (packageNode path config files pkg) (fileNode path config f)"
  by (simp add: packageNode_def addFileToNode_def fileNode_def Let_def)

lemma packageNode_first:
  assumes "pkg \<notin> filePackage path config ` set files"
  shows "packageNode path config files pkg = CoverageTreeNode pkg pkg 0 0 (Some [])"
proof -
  from assms have "filter (\<lambda>f. filePackage path config f = pkg) files = []"
    by (auto simp: filter_empty_conv)
  then show ?thesis by (simp add: packageNode_def)
qed

text \<open>A file outside the target packages leaves the tree as it is.\<close>

lemma treeFor_skip:
  assumes "treeFor path config files tree"
    and "filePackage path config f \<notin> set (targetPackages config)"
  shows "treeFor path config (files @ [f]) tree"
proof -
  have "node = packageNode path config (files @ [f]) pkg" if "(pkg, node) \<in> set tree" for pkg node
  proof -
    from that assms(1) have "pkg \<in> set (targetPackages config)"
      unfolding treeFor_def by (metis IntE fst_conv image_eqI)
    with assms(2) have "filePackage path config f \<noteq> pkg" by auto
    with that assms(1) show ?thesis
      unfolding treeFor_def by (auto simp: packageNode_other)
  qed
  with assms show ?thesis unfolding treeFor_def by auto
qed

text \<open>A file of a target package is added under the node of its package.\<close>

lemma treeFor_step:
  assumes inv: "treeFor path config files tree"
    and scope: "filePackage path config f \<in> set (targetPackages config)"
  shows "treeFor path config (files @ [f])
           (mapSet (filePackage path config f)
              (addFileToNode
                 (case map_of tree (filePackage path config f) of
                    Some node \<Rightarrow> node
                  | None \<Rightarrow>
                      CoverageTreeNode (filePackage path config f) (filePackage path config f)
                        0 0 (Some []))
                 (fileNode path config f))
              tree)"
    (is "treeFor _ _ _ (mapSet ?p (addFileToNode ?old ?child) tree)")
proof -
  from inv have dist: "distinct (map fst tree)"
    and keys: "fst ` set tree = (filePackage path config ` set files) \<inter> set (targetPackages config)"
    and nodes: "\<And>pkg node. (pkg, node) \<in> set tree \<Longrightarrow> node = packageNode path config files pkg"
    unfolding treeFor_def by auto
  have old: "?old = packageNode path config files ?p"
  proof (cases "map_of tree ?p")
    case None
    then have "?p \<notin> fst ` set tree" by (simp add: map_of_eq_None_iff)
    with keys scope have "?p \<notin> filePackage path config ` set files" by auto
    with None show ?thesis by (simp add: packageNode_first)
  next
    case (Some node)
    then have "(?p, node) \<in> set tree" by (rule map_of_SomeD)
    with nodes Some show ?thesis by simp
  qed
  have new: "addFileToNode ?old ?child = packageNode path config (files @ [f]) ?p"
    by (simp add: old packageNode_add)
  have "distinct (map fst (mapSet ?p (addFileToNode ?old ?child) tree))"
    using dist by (rule distinct_mapSet)
  moreover have "fst ` set (mapSet ?p (addFileToNode ?old ?child) tree) =
      (filePackage path config ` set (files @ [f])) \<inter> set (targetPackages config)"
    using keys scope by (auto simp: fst_set_mapSet)
  moreover have "node = packageNode path config (files @ [f]) pkg"
    if "(pkg, node) \<in> set (mapSet ?p (addFileToNode ?old ?child) tree)" for pkg node
  proof (cases "pkg = ?p")
    case True
    with that dist show ?thesis by (auto simp: set_mapSet new)
  next
    case False
    with that dist have "(pkg, node) \<in> set tree" by (auto simp: set_mapSet)
    with nodes False show ?thesis by (simp add: packageNode_other)
  qed
  ultimately show ?thesis unfolding treeFor_def by auto
qed

lemma lcovFilesLoop_tree:
  "treeFor path config seen (resultsTree st) \<Longrightarrow>
   treeFor path config (seen @ files) (resultsTree (lcovFilesLoop path sc config files st))"
proof (induction files arbitrary: seen st)
  case Nil
  then show ?case by simp
next
  case (Cons f files)
  have "treeFor path config (seen @ [f]) (resultsTree (lcovFileStep path sc config f st))"
    using Cons.prems
    by (auto simp: lcovFileStep_def Let_def treeFor_skip treeFor_step)
  from Cons.IH [OF this] show ?case by simp
qed

lemma packageNode_totals: "totalsAreSums (packageNode path config files pkg)"
  by (simp add: totalsAreSums_def childrenOf_def packageNode_def fileNode_def Let_def comp_def)

lemma packageNode_children:
  "childrenOf (packageNode path config files pkg) =
     map (fileNode path config) (filter (\<lambda>f. filePackage path config f = pkg) files)"
  by (simp add: childrenOf_def packageNode_def Let_def)

text \<open>
  Claim C9: after \<open>processLcovFiles\<close> has processed any list of per-file records, the
  package nodes it has pushed onto the tree roots are one for each package that some file
  belongs to and that is, as the very same string, among the target packages; every such
  node has \<open>hits\<close> equal to the sum of its children's \<open>hits\<close> and \<open>lines\<close> equal to the sum
  of its children's \<open>lines\<close>, and its children are the nodes of exactly the files whose
  package is that of the node, in the order of the report. Files of any other package
  contribute no node and no child.
\<close>

theorem processLcovFiles_rollup:
  "\<exists>new. snd (processLcovFiles path showCounts (Some files) config roots) = roots @ new \<and>
     distinct (map displayName new) \<and>
     set (map displayName new) =
       filePackage path config ` set files \<inter> set (targetPackages config) \<and>
     (\<forall>node \<in> set new.
        totalsAreSums node \<and>
        childrenOf node =
          map (fileNode path config)
            (filter (\<lambda>f. filePackage path config f = displayName node) files))"
proof -
  define tree where
    "tree = resultsTree (lcovFilesLoop path showCounts config files
              \<lparr>coveragePath = [], resultsTree = []\<rparr>)"
  have "treeFor path config ([] @ files) tree"
    unfolding tree_def by (rule lcovFilesLoop_tree) (simp add: treeFor_def)
  then have inv: "treeFor path config files tree" by simp
  have names: "map displayName (map snd tree) = map fst tree"
    using inv unfolding treeFor_def by (auto simp: packageNode_def Let_def)
  have "snd (processLcovFiles path showCounts (Some files) config roots) = roots @ map snd tree"
    by (simp add: processLcovFiles_def tree_def Let_def)
  moreover have "distinct (map displayName (map snd tree))"
    using inv unfolding names treeFor_def by simp
  moreover have "set (map displayName (map snd tree)) =
      filePackage path config ` set files \<inter> set (targetPackages config)"
    using inv unfolding names treeFor_def by simp
  moreover have "totalsAreSums node \<and> childrenOf node =
          map (fileNode path config)
            (filter (\<lambda>f. filePackage path config f = displayName node) files)"
    if "node \<in> set (map snd tree)" for node
  proof -
    from that obtain pkg where "(pkg, node) \<in> set tree" by auto
    with inv have "node = packageNode path config files pkg" unfolding treeFor_def by auto
    then show ?thesis
      by (simp add: packageNode_totals packageNode_children) (simp add: packageNode_def Let_def)
  qed
  ultimately show ?thesis by blast
qed

lemma sample_rollup:
  "snd (processLcovFiles samplePath False (Some sampleFiles) sampleConfig []) =
     [CoverageTreeNode ''a/pkg'' ''a/pkg'' 723 849
        (Some [CoverageTreeNode ''foo.go'' ''/r/src/a/pkg/foo.go'' 479 590 None,
               CoverageTreeNode ''bar.go'' ''/r/src/a/pkg/bar.go'' 244 259 None])]"
  by (simp add: processLcovFiles_def samplePath_def sampleFiles_def sampleConfig_def
      lcovFileStep_def Let_def filePackage_def fileRelativePath_def
      getSourceFileAbsolutePath_def fileNode_def addFileToNode_def)

theorem processLcovFiles_rollup_witness:
  "CoverageTreeNode ''a/pkg'' ''a/pkg'' 723 849
     (Some [CoverageTreeNode ''foo.go'' ''/r/src/a/pkg/foo.go'' 479 590 None,
            CoverageTreeNode ''bar.go'' ''/r/src/a/pkg/bar.go'' 244 259 None])
     \<in> set (snd (processLcovFiles samplePath False (Some sampleFiles) sampleConfig [])) \<and>
   totalsAreSums
     (CoverageTreeNode ''a/pkg'' ''a/pkg'' 723 849
        (Some [CoverageTreeNode ''foo.go'' ''/r/src/a/pkg/foo.go'' 479 590 None,
               CoverageTreeNode ''bar.go'' ''/r/src/a/pkg/bar.go'' 244 259 None]))"
  using processLcovFiles_rollup [of samplePath False sampleFiles sampleConfig "[]"]
  by (auto simp: sample_rollup)

section \<open>The test report converter\<close>

lemma pushMessages_eq:
  "pushMessages pkg c messages results = results @ map (outputEvent pkg c) messages"
  by (induction messages arbitrary: results) simp_all

lemma pushEntries_texts:
  "pushEntries (map Some texts) messages = Inr (messages @ concat (map split_nl texts))"
  by (induction texts arbitrary: messages) simp_all

text \<open>The events of a list of test cases do not depend on what was pushed before.\<close>

lemma testcaseLoop_acc:
  "testcaseLoop pkg cs results =
     (case testcaseLoop pkg cs [] of Inl e \<Rightarrow> Inl e | Inr evs \<Rightarrow> Inr (results @ evs))"
proof (induction cs arbitrary: results)
  case Nil
  then show ?case by simp
next
  case (Cons c cs)
  show ?case
  proof (cases "caseOutcome c")
    case (Inl e)
    then show ?thesis by simp
  next
    case (Inr r)
    obtain action messages where r: "r = (action, messages)" by (cases r)
    define mid where "mid = map (outputEvent pkg c) messages @ [finalEvent action pkg c]"
    have long: "testcaseLoop pkg cs (results @ mid) =
        (case testcaseLoop pkg cs [] of Inl e \<Rightarrow> Inl e | Inr evs \<Rightarrow> Inr ((results @ mid) @ evs))"
      by (rule Cons.IH)
    have short: "testcaseLoop pkg cs mid =
        (case testcaseLoop pkg cs [] of Inl e \<Rightarrow> Inl e | Inr evs \<Rightarrow> Inr (mid @ evs))"
      by (rule Cons.IH)
    have "testcaseLoop pkg (c # cs) results = testcaseLoop pkg cs (results @ mid)"
      using Inr r by (simp add: pushMessages_eq mid_def)
    moreover have "testcaseLoop pkg (c # cs) [] = testcaseLoop pkg cs mid"
      using Inr r by (simp add: pushMessages_eq mid_def)
    ultimately show ?thesis
      unfolding long short by (cases "testcaseLoop pkg cs []") simp_all
  qed
qed

lemma testcaseLoop_append:
  "testcaseLoop pkg (cs1 @ cs2) results =
     (case testcaseLoop pkg cs1 results of Inl e \<Rightarrow> Inl e | Inr r \<Rightarrow> testcaseLoop pkg cs2 r)"
proof (induction cs1 arbitrary: results)
  case Nil
  then show ?case by simp
next
  case (Cons c cs1)
  show ?case
  proof (cases "caseOutcome c")
    case (Inl e)
    then show ?thesis by simp
  next
    case (Inr r)
    obtain action messages where r: "r = (action, messages)" by (cases r)
    have "testcaseLoop pkg ((c # cs1) @ cs2) results =
        testcaseLoop pkg (cs1 @ cs2)
          (pushMessages pkg c messages results @ [finalEvent action pkg c])"
      using Inr r by simp
    also have "\<dots> =
        (case testcaseLoop pkg cs1
                (pushMessages pkg c messages results @ [finalEvent action pkg c]) of
           Inl e \<Rightarrow> Inl e | Inr r \<Rightarrow> testcaseLoop pkg cs2 r)"
      by (rule Cons.IH)
    also have "\<dots> =
        (case testcaseLoop pkg (c # cs1) results of
           Inl e \<Rightarrow> Inl e | Inr r \<Rightarrow> testcaseLoop pkg cs2 r)"
      using Inr r by simp
    finally show ?thesis .
  qed
qed

lemma suiteLoop_acc:
  "suiteLoop suites results =
     (case suiteLoop suites [] of Inl e \<Rightarrow> Inl e | Inr evs \<Rightarrow> Inr (results @ evs))"
proof (induction suites arbitrary: results)
  case Nil
  then show ?case by simp
next
  case (Cons s suites)
  show ?case
  proof (cases "testcase s")
    case None
    then show ?thesis by (simp add: Cons.IH [of results])
  next
    case (Some cs)
    have split: "testcaseLoop (suite_name s) cs results =
        (case testcaseLoop (suite_name s) cs [] of
           Inl e \<Rightarrow> Inl e | Inr evs \<Rightarrow> Inr (results @ evs))"
      by (rule testcaseLoop_acc)
    show ?thesis
    proof (cases "testcaseLoop (suite_name s) cs []")
      case (Inl e)
      then show ?thesis using Some split by simp
    next
      case (Inr evs)
      have long: "suiteLoop suites (results @ evs) =
          (case suiteLoop suites [] of
             Inl e \<Rightarrow> Inl e | Inr later \<Rightarrow> Inr ((results @ evs) @ later))"
        by (rule Cons.IH)
      have short: "suiteLoop suites evs =
          (case suiteLoop suites [] of Inl e \<Rightarrow> Inl e | Inr later \<Rightarrow> Inr (evs @ later))"
        by (rule Cons.IH)
      have "suiteLoop (s # suites) results = suiteLoop suites (results @ evs)"
        using Some split Inr by simp
      moreover have "suiteLoop (s # suites) [] = suiteLoop suites evs"
        using Some Inr by simp
      ultimately show ?thesis
        unfolding long short by (cases "suiteLoop suites []") simp_all
    qed
  qed
qed

lemma suiteLoop_append:
  "suiteLoop (s1 @ s2) results =
     (case suiteLoop s1 results of Inl e \<Rightarrow> Inl e | Inr r \<Rightarrow> suiteLoop s2 r)"
proof (induction s1 arbitrary: results)
  case Nil
  then show ?case by simp
next
  case (Cons s s1)
  show ?case
  proof (cases "testcase s")
    case None
    then show ?thesis by (simp add: Cons.IH)
  next
    case (Some cs)
    then show ?thesis
      by (cases "testcaseLoop (suite_name s) cs results") (simp_all add: Cons.IH)
  qed
qed

lemma suite_without_cases:
  "testcase suite = None \<Longrightarrow>
   testResultXMLToGoTestOutput (s1 @ suite # s2) = testResultXMLToGoTestOutput (s1 @ s2)"
  by (simp add: testResultXMLToGoTestOutput_def suiteLoop_append split: sum.splits)

lemma caseOutcome_texts:
  assumes "tc_failure c = Some (map Some texts) \<and> action = ''fail'' \<or>
           tc_failure c = None \<and> tc_error c = Some (map Some texts) \<and> action = ''errored''"
  shows "caseOutcome c = Inr (action, concat (map split_nl texts))"
  using assms by (auto simp: caseOutcome_def pushEntries_texts)

text \<open>Where the events of one test case lie in the result.\<close>

lemma case_events:
  assumes run: "testResultXMLToGoTestOutput (suites1 @ suite # suites2) = Inr events"
    and cases: "testcase suite = Some (cases1 @ c # cases2)"
    and out: "caseOutcome c = Inr (action, messages)"
  shows "\<exists>before after.
      events = before @ map (outputEvent (suite_name suite) c) messages
                 @ [finalEvent action (suite_name suite) c] @ after \<and>
      testResultXMLToGoTestOutput (suites1 @ [suite\<lparr>testcase := Some cases1\<rparr>]) = Inr before \<and>
      testResultXMLToGoTestOutput (suite\<lparr>testcase := Some cases2\<rparr> # suites2) = Inr after"
proof -
  let ?pkg = "suite_name suite"
  from run obtain b1 where b1: "suiteLoop suites1 [] = Inr b1"
    and rest: "suiteLoop (suite # suites2) b1 = Inr events"
    by (auto simp: testResultXMLToGoTestOutput_def suiteLoop_append split: sum.splits)
  from rest cases obtain b2 where b2: "testcaseLoop ?pkg (cases1 @ c # cases2) b1 = Inr b2"
    and s2: "suiteLoop suites2 b2 = Inr events"
    by (auto split: sum.splits)
  from b2 obtain b3 where b3: "testcaseLoop ?pkg cases1 b1 = Inr b3"
    and c2: "testcaseLoop ?pkg (c # cases2) b3 = Inr b2"
    by (auto simp: testcaseLoop_append split: sum.splits)
  let ?mid = "map (outputEvent ?pkg c) messages @ [finalEvent action ?pkg c]"
  from c2 out have c3: "testcaseLoop ?pkg cases2 (b3 @ ?mid) = Inr b2"
    by (simp add: pushMessages_eq)
  then obtain e2 where e2: "testcaseLoop ?pkg cases2 [] = Inr e2" and b2_eq: "b2 = (b3 @ ?mid) @ e2"
    by (subst (asm) testcaseLoop_acc) (auto split: sum.splits)
  from s2 obtain e3 where e3: "suiteLoop suites2 [] = Inr e3" and ev: "events = b2 @ e3"
    by (subst (asm) suiteLoop_acc) (auto split: sum.splits)
  have "events = b3 @ map (outputEvent ?pkg c) messages @ [finalEvent action ?pkg c] @ (e2 @ e3)"
    using ev b2_eq by simp
  moreover
  have "testResultXMLToGoTestOutput (suites1 @ [suite\<lparr>testcase := Some cases1\<rparr>]) = Inr b3"
    using b1 b3 by (simp add: testResultXMLToGoTestOutput_def suiteLoop_append)
  moreover
  have "testResultXMLToGoTestOutput (suite\<lparr>testcase := Some cases2\<rparr> # suites2) = Inr (e2 @ e3)"
    using e2 e3 by (simp add: testResultXMLToGoTestOutput_def suiteLoop_acc [of suites2 e2])
  ultimately show ?thesis by blast
qed

lemma sample_events:
  "testResultXMLToGoTestOutput sampleReport =
     Inr [\<lparr>Action = ''output'', Output = Some [CHR ''a'', CHR 0x0A], Package = ''code/pkg'',
             Test = ''TestExampleCase'', Elapsed = None\<rparr>,
          \<lparr>Action = ''output'', Output = Some [CHR 0x0A], Package = ''code/pkg'',
             Test = ''TestExampleCase'', Elapsed = None\<rparr>,
          \<lparr>Action = ''output'', Output = Some [CHR ''b'', CHR 0x0A], Package = ''code/pkg'',
             Test = ''TestExampleCase'', Elapsed = None\<rparr>,
          \<lparr>Action = ''fail'', Output = None, Package = ''code/pkg'',
             Test = ''TestExampleCase'', Elapsed = Some (Number ''0.33'')\<rparr>]"
  by (simp add: testResultXMLToGoTestOutput_def sampleReport_def sampleFailingCase_def
      caseOutcome_def outputEvent_def finalEvent_def)

text \<open>
  Claim C2, as the spec states it, has one \<open>output\<close> event for each non-empty line of the
  split text. The source pushes one event for every piece of the split, the empty ones
  too (its tests expect the event whose output is a lone line feed). For the failure text
  \<open>a\<close>, empty line, \<open>b\<close> the events are not the two of the non-empty lines followed by the
  \<open>fail\<close> event.
\<close>

theorem testResultXMLToGoTestOutput_nonempty_lines_counterexample:
  "testResultXMLToGoTestOutput sampleReport \<noteq>
     Inr (map (outputEvent ''code/pkg'' sampleFailingCase)
            (removeAll [] (split_nl [CHR ''a'', CHR 0x0A, CHR 0x0A, CHR ''b'']))
          @ [finalEvent ''fail'' ''code/pkg'' sampleFailingCase])"
  by (simp add: sample_events outputEvent_def finalEvent_def sampleFailingCase_def)

text \<open>
  Claim C2, amended: whenever the converter returns for a report (every \<open>failure\<close> and
  \<open>error\<close> entry it reads carries text), for every test case of a suite with test cases
  that is failing (a \<open>failure\<close> child) or errored (an \<open>error\<close> child and no \<open>failure\<close>
  child), the produced sequence is: the events of everything before that case, then one
  \<open>output\<close> event for every line of the split text, empty lines included and in the order
  of the text, each with the package of the suite and the name of the case, then the
  \<open>fail\<close> or \<open>errored\<close> event of the case with \<open>Elapsed\<close> the number read from the \<open>time\<close>
  attribute, then the events of everything after the case. A suite without test cases
  contributes no event.
\<close>

theorem testResultXMLToGoTestOutput_outputs_before_final:
  assumes "testResultXMLToGoTestOutput (suites1 @ suite # suites2) = Inr events"
    and "testcase suite = Some (cases1 @ c # cases2)"
    and "tc_failure c = Some (map Some texts) \<and> action = ''fail'' \<or>
         tc_failure c = None \<and> tc_error c = Some (map Some texts) \<and> action = ''errored''"
  shows "(\<exists>before after.
      events =
        before
        @ map (\<lambda>message.
                 \<lparr>Action = ''output'', Output = Some (message @ [CHR 0x0A]),
                  Package = suite_name suite, Test = tc_name c, Elapsed = None\<rparr>)
            (concat (map split_nl texts))
        @ [\<lparr>Action = action, Output = None, Package = suite_name suite, Test = tc_name c,
            Elapsed = Some (Number (tc_time c))\<rparr>]
        @ after \<and>
      testResultXMLToGoTestOutput (suites1 @ [suite\<lparr>testcase := Some cases1\<rparr>]) = Inr before \<and>
      testResultXMLToGoTestOutput (suite\<lparr>testcase := Some cases2\<rparr> # suites2) = Inr after) \<and>
    (\<forall>s1 s s2. testcase s = None \<longrightarrow>
       testResultXMLToGoTestOutput (s1 @ s # s2) = testResultXMLToGoTestOutput (s1 @ s2))"
proof -
  have "caseOutcome c = Inr (action, concat (map split_nl texts))"
    using assms(3) by (rule caseOutcome_texts)
  from case_events [OF assms(1) assms(2) this] suite_without_cases
  show ?thesis
    unfolding outputEvent_def finalEvent_def by blast
qed

theorem testResultXMLToGoTestOutput_outputs_before_final_witness:
  "\<exists>before after.
     testResultXMLToGoTestOutput sampleReport =
       Inr (before
            @ map (\<lambda>message.
                     \<lparr>Action = ''output'', Output = Some (message @ [CHR 0x0A]),
                      Package = ''code/pkg'', Test = ''TestExampleCase'', Elapsed = None\<rparr>)
                [''a'', '''', ''b'']
            @ [\<lparr>Action = ''fail'', Output = None, Package = ''code/pkg'',
                Test = ''TestExampleCase'', Elapsed = Some (Number ''0.33'')\<rparr>]
            @ after)"
proof -
  let ?suite = "\<lparr>suite_name = ''code/pkg'', testcase = Some [sampleFailingCase]\<rparr>"
  obtain events where
    run: "testResultXMLToGoTestOutput
            ([\<lparr>suite_name = ''empty/pkg'', testcase = None\<rparr>] @ ?suite # []) = Inr events"
    using sample_events by (simp add: sampleReport_def)
  have cases: "testcase ?suite = Some ([] @ sampleFailingCase # [])" by simp
  have fails:
    "tc_failure sampleFailingCase = Some (map Some [[CHR ''a'', CHR 0x0A, CHR 0x0A, CHR ''b'']])
        \<and> ''fail'' = ''fail'' \<or>
      tc_failure sampleFailingCase = None \<and>
      tc_error sampleFailingCase = Some (map Some [[CHR ''a'', CHR 0x0A, CHR 0x0A, CHR ''b'']]) \<and>
      ''fail'' = ''errored''"
    by (simp add: sampleFailingCase_def)
  from testResultXMLToGoTestOutput_outputs_before_final [OF run cases fails] run
  show ?thesis
    by (simp add: sampleReport_def sampleFailingCase_def) blast
qed

section \<open>The error message collector\<close>










section \<open>The build event reader\<close>

text \<open>What the statements of the listener leave unchanged.\<close>

lemma setExitCode_frame:
  "setExitCode v st = Inr st' \<Longrightarrow>
     channel st' = channel st \<and> closed st' = closed st \<and> collector st' = collector st \<and>
     errorMessages (outputs st') = errorMessages (outputs st) \<and>
     testXMLPaths (outputs st') = testXMLPaths (outputs st)"
  by (auto simp: setExitCode_def split: sum.splits if_splits)

lemma collectStderr_frame:
  "collectStderr v st = Inr st' \<Longrightarrow>
     channel st' = channel st \<and> closed st' = closed st \<and>
     errorMessages (outputs st') = output_list (collector st') \<and>
     testXMLPaths (outputs st') = testXMLPaths (outputs st) \<and>
     exitCode (outputs st') = exitCode (outputs st)"
  by (auto simp: collectStderr_def Let_def split: sum.splits)

lemma pushTestXMLPaths_frame:
  "pushTestXMLPaths xs st = (r, st') \<Longrightarrow>
     channel st' = channel st \<and> closed st' = closed st \<and> collector st' = collector st \<and>
     errorMessages (outputs st') = errorMessages (outputs st) \<and>
     exitCode (outputs st') = exitCode (outputs st)"
proof (induction xs arbitrary: st)
  case Nil
  then show ?case by simp
next
  case (Cons x xs)
  show ?case
  proof (cases "getProp x ''name''")
    case (Inl e)
    with Cons.prems show ?thesis by simp
  next
    case name: (Inr n)
    show ?thesis
    proof (cases "n = JStr ''test.xml''")
      case False
      with Cons name show ?thesis by simp
    next
      case True
      show ?thesis
      proof (cases "getProp x ''uri''")
        case (Inl e)
        with Cons.prems name True show ?thesis by simp
      next
        case (Inr u)
        show ?thesis
        proof (cases u)
          case (JStr uri)
          with Cons.prems name True Inr
          have "pushTestXMLPaths xs
                  (st\<lparr>outputs := (outputs st)
                        \<lparr>testXMLPaths := testXMLPaths (outputs st) @ [stripFileScheme uri]\<rparr>\<rparr>) = (r, st')"
            by simp
          from Cons.IH [OF this] show ?thesis by simp
        qed (use Cons.prems name True Inr in simp_all)
      qed
    qed
  qed
qed

lemma pushTestXMLPaths_paths:
  "pushTestXMLPaths xs st = (None, st') \<Longrightarrow>
     testXMLPaths (outputs st') = testXMLPaths (outputs st) @ map reportPath (filter isReport xs)"
proof (induction xs arbitrary: st)
  case Nil
  then show ?case by simp
next
  case (Cons x xs)
  show ?case
  proof (cases "getProp x ''name''")
    case (Inl e)
    with Cons.prems show ?thesis by simp
  next
    case name: (Inr n)
    show ?thesis
    proof (cases "n = JStr ''test.xml''")
      case False
      with Cons name show ?thesis by (simp add: isReport_def)
    next
      case True
      show ?thesis
      proof (cases "getProp x ''uri''")
        case (Inl e)
        with Cons.prems name True show ?thesis by simp
      next
        case (Inr u)
        show ?thesis
        proof (cases u)
          case (JStr uri)
          with Cons.prems name True Inr
          have "pushTestXMLPaths xs
                  (st\<lparr>outputs := (outputs st)
                        \<lparr>testXMLPaths := testXMLPaths (outputs st) @ [stripFileScheme uri]\<rparr>\<rparr>) = (None, st')"
            by simp
          from Cons.IH [OF this] name True Inr JStr show ?thesis
            by (simp add: isReport_def reportPath_def)
        qed (use Cons.prems name True Inr in simp_all)
      qed
    qed
  qed
qed

lemma iterateTestActionOutput_frame:
  "iterateTestActionOutput outs st = (r, st') \<Longrightarrow>
     channel st' = channel st \<and> closed st' = closed st \<and> collector st' = collector st \<and>
     errorMessages (outputs st') = errorMessages (outputs st) \<and>
     exitCode (outputs st') = exitCode (outputs st)"
  by (cases outs) (auto simp: iterateTestActionOutput_def dest: pushTestXMLPaths_frame)

lemma storeLocalExecRoot_frame:
  "storeLocalExecRoot v st = (r, st') \<Longrightarrow>
     channel st' = channel st \<and> closed st' = closed st \<and> collector st' = collector st \<and>
     errorMessages (outputs st') = errorMessages (outputs st) \<and>
     exitCode (outputs st') = exitCode (outputs st) \<and>
     testXMLPaths (outputs st') = testXMLPaths (outputs st)"
  unfolding storeLocalExecRoot_def
  by (cases "getPath v [''workspaceInfo'', ''localExecRoot'']") auto

lemma storeWorkspaceDirectory_frame:
  "storeWorkspaceDirectory v st = (r, st') \<Longrightarrow>
     channel st' = channel st \<and> closed st' = closed st \<and> collector st' = collector st \<and>
     errorMessages (outputs st') = errorMessages (outputs st) \<and>
     exitCode (outputs st') = exitCode (outputs st) \<and>
     testXMLPaths (outputs st') = testXMLPaths (outputs st)"
  unfolding storeWorkspaceDirectory_def
  by (cases "getPath v [''started'', ''workspaceDirectory'']") auto

lemma storeGenDir_frame:
  "storeGenDir v st = (r, st') \<Longrightarrow>
     channel st' = channel st \<and> closed st' = closed st \<and> collector st' = collector st \<and>
     errorMessages (outputs st') = errorMessages (outputs st) \<and>
     exitCode (outputs st') = exitCode (outputs st) \<and>
     testXMLPaths (outputs st') = testXMLPaths (outputs st)"
  unfolding storeGenDir_def
  by (cases "getPath v [''configuration'', ''makeVariable'', ''GENDIR'']") auto

lemma storeTestXMLPaths_frame:
  "storeTestXMLPaths v st = (r, st') \<Longrightarrow>
     channel st' = channel st \<and> closed st' = closed st \<and> collector st' = collector st \<and>
     errorMessages (outputs st') = errorMessages (outputs st) \<and>
     exitCode (outputs st') = exitCode (outputs st)"
  unfolding storeTestXMLPaths_def
  by (cases "getPath v [''testResult'', ''testActionOutput'']")
    (auto dest: iterateTestActionOutput_frame)

lemma storeEventData_branch:
  assumes "storeEventData v st = (r, st')"
  shows "st' = st \<or> storeLocalExecRoot v st = (r, st') \<or>
      storeWorkspaceDirectory v st = (r, st') \<or>
      storeTestXMLPaths v st = (r, st') \<or> storeGenDir v st = (r, st')"
  using assms unfolding storeEventData_def by (auto split: sum.splits if_splits)

lemma storeEventData_frame:
  assumes "storeEventData v st = (r, st')"
  shows "channel st' = channel st \<and> closed st' = closed st \<and> collector st' = collector st \<and>
     errorMessages (outputs st') = errorMessages (outputs st) \<and>
     exitCode (outputs st') = exitCode (outputs st)"
  using storeEventData_branch [OF assms] storeLocalExecRoot_frame [of v st r st']
    storeWorkspaceDirectory_frame [of v st r st'] storeTestXMLPaths_frame [of v st r st']
    storeGenDir_frame [of v st r st']
  by blast

lemma absent_getPath:
  assumes "absent v field"
  shows "\<exists>e. getPath v (field # k # ks) = Inl e"
proof (cases "getProp v field")
  case (Inl e)
  then show ?thesis by simp
next
  case (Inr x)
  with assms have "x = JUndefined \<or> x = JNull" by (simp add: absent_def)
  with Inr show ?thesis by auto
qed

lemma getProp_defined:
  "x \<noteq> JUndefined \<Longrightarrow> x \<noteq> JNull \<Longrightarrow> \<exists>y. getProp x k = Inr y"
  by (cases x) simp_all

lemma tag_value:
  assumes "\<not> lacksId v"
  shows "\<exists>x. getPath v [''id'', tag] = Inr x \<and> (selects v tag \<longleftrightarrow> truthy x)"
proof -
  from assms obtain i where i: "getProp v ''id'' = Inr i" "i \<noteq> JUndefined" "i \<noteq> JNull"
    by (cases "getProp v ''id''") (simp_all add: lacksId_def absent_def)
  from getProp_defined [OF i(2) i(3)] obtain x where "getProp i tag = Inr x" by blast
  with i(1) have "getPath v [''id'', tag] = Inr x" by simp
  then show ?thesis by (simp add: selects_def)
qed

lemma storeEventData_chain:
  assumes "\<not> lacksId v"
  shows "storeEventData v st =
     (if selects v ''workspace'' then storeLocalExecRoot v st
      else if selects v ''started'' then storeWorkspaceDirectory v st
      else if selects v ''testResult'' then storeTestXMLPaths v st
      else if selects v ''configuration'' then storeGenDir v st
      else (None, st))"
proof -
  from tag_value [OF assms] obtain w where
    w: "getPath v [''id'', ''workspace''] = Inr w" "selects v ''workspace'' \<longleftrightarrow> truthy w"
    by blast
  from tag_value [OF assms] obtain s where
    s: "getPath v [''id'', ''started''] = Inr s" "selects v ''started'' \<longleftrightarrow> truthy s"
    by blast
  from tag_value [OF assms] obtain t where
    t: "getPath v [''id'', ''testResult''] = Inr t" "selects v ''testResult'' \<longleftrightarrow> truthy t"
    by blast
  from tag_value [OF assms] obtain c where
    c: "getPath v [''id'', ''configuration''] = Inr c" "selects v ''configuration'' \<longleftrightarrow> truthy c"
    by blast
  show ?thesis
    unfolding storeEventData_def w s t c by simp
qed

lemma setExitCode_chain:
  assumes "\<not> lacksId v"
  shows "setExitCode v st =
     (if selects v ''buildFinished''
      then (case getPath v [''finished'', ''exitCode'', ''code''] of
              Inl e \<Rightarrow> Inl e
            | Inr code \<Rightarrow>
                Inr (st\<lparr>outputs := (outputs st)
                          \<lparr>exitCode := (if truthy code then code else JNum 0)\<rparr>\<rparr>))
      else Inr st)"
proof -
  from tag_value [OF assms] obtain b where
    b: "getPath v [''id'', ''buildFinished''] = Inr b" "selects v ''buildFinished'' \<longleftrightarrow> truthy b"
    by blast
  show ?thesis unfolding setExitCode_def b by simp
qed

lemma pushTestXMLPaths_uris:
  "pushTestXMLPaths xs st = (None, st') \<Longrightarrow>
     \<forall>x \<in> set (filter isReport xs). \<exists>uri. getProp x ''uri'' = Inr (JStr uri)"
proof (induction xs arbitrary: st)
  case Nil
  then show ?case by simp
next
  case (Cons x xs)
  show ?case
  proof (cases "isReport x")
    case False
    with Cons show ?thesis
      by (cases "getProp x ''name''") (auto simp: isReport_def)
  next
    case True
    then have name: "getProp x ''name'' = Inr (JStr ''test.xml'')" by (simp add: isReport_def)
    show ?thesis
    proof (cases "getProp x ''uri''")
      case (Inl e)
      with Cons.prems name show ?thesis by simp
    next
      case (Inr u)
      show ?thesis
      proof (cases u)
        case (JStr uri)
        with Cons.prems name Inr
        have "pushTestXMLPaths xs
                (st\<lparr>outputs := (outputs st)
                      \<lparr>testXMLPaths := testXMLPaths (outputs st) @ [stripFileScheme uri]\<rparr>\<rparr>) = (None, st')"
          by simp
        from Cons.IH [OF this] Inr JStr show ?thesis by simp
      qed (use Cons.prems name Inr in simp_all)
    qed
  qed
qed

lemma storeTestXMLPaths_paths:
  assumes "storeTestXMLPaths v st = (None, st')"
  shows "\<exists>reports.
      (case getPath v [''testResult'', ''testActionOutput''] of
         Inr (JArr testActionOutputs) \<Rightarrow> filter isReport testActionOutputs
       | _ \<Rightarrow> []) = reports \<and>
      testXMLPaths (outputs st') = testXMLPaths (outputs st) @ map reportPath reports \<and>
      (\<forall>x \<in> set reports. \<exists>uri. getProp x ''uri'' = Inr (JStr uri))"
proof (cases "getPath v [''testResult'', ''testActionOutput'']")
  case (Inl e)
  with assms show ?thesis by (simp add: storeTestXMLPaths_def)
next
  case (Inr outs)
  with assms have it: "iterateTestActionOutput outs st = (None, st')"
    by (simp add: storeTestXMLPaths_def)
  show ?thesis
  proof (cases outs)
    case (JArr xs)
    with it have "pushTestXMLPaths xs st = (None, st')" by (simp add: iterateTestActionOutput_def)
    from pushTestXMLPaths_paths [OF this] pushTestXMLPaths_uris [OF this] Inr JArr
    show ?thesis by simp
  qed (use it Inr in \<open>simp_all add: iterateTestActionOutput_def\<close>)
qed

lemma setExitCode_has_id: "setExitCode v st = Inr st1 \<Longrightarrow> \<not> lacksId v"
proof
  assume ok: "setExitCode v st = Inr st1" and "lacksId v"
  then obtain e where "getPath v [''id'', ''buildFinished''] = Inl e"
    unfolding lacksId_def using absent_getPath [of v "''id''" "''buildFinished''" "[]"] by blast
  with ok show False by (simp add: setExitCode_def)
qed

lemma tryBody_paths:
  assumes "tryBody v st = (None, st')"
  shows "testXMLPaths (outputs st') = testXMLPaths (outputs st) @ map reportPath (namedReports v) \<and>
         (\<forall>x \<in> set (namedReports v). \<exists>uri. getProp x ''uri'' = Inr (JStr uri))"
proof -
  from assms obtain st1 where one: "setExitCode v st = Inr st1"
    by (cases "setExitCode v st") (simp_all add: tryBody_def)
  from assms one obtain st2 where two: "collectStderr v st1 = Inr st2"
    by (cases "collectStderr v st1") (simp_all add: tryBody_def)
  from assms one two have three: "storeEventData v st2 = (None, st')" by (simp add: tryBody_def)
  have id: "\<not> lacksId v" using one by (rule setExitCode_has_id)
  have before: "testXMLPaths (outputs st2) = testXMLPaths (outputs st)"
    using setExitCode_frame [OF one] collectStderr_frame [OF two] by simp
  consider (w) "selects v ''workspace''"
    | (s) "\<not> selects v ''workspace''" "selects v ''started''"
    | (t) "\<not> selects v ''workspace''" "\<not> selects v ''started''" "selects v ''testResult''"
    | (c) "\<not> selects v ''workspace''" "\<not> selects v ''started''" "\<not> selects v ''testResult''"
          "selects v ''configuration''"
    | (n) "\<not> selects v ''workspace''" "\<not> selects v ''started''" "\<not> selects v ''testResult''"
          "\<not> selects v ''configuration''"
    by blast
  then show ?thesis
  proof cases
    case w
    with three have "storeLocalExecRoot v st2 = (None, st')"
      by (simp add: storeEventData_chain [OF id])
    from storeLocalExecRoot_frame [OF this] before w show ?thesis
      by (simp add: namedReports_def chainPayload_def)
  next
    case s
    with three have "storeWorkspaceDirectory v st2 = (None, st')"
      by (simp add: storeEventData_chain [OF id])
    from storeWorkspaceDirectory_frame [OF this] before s show ?thesis
      by (simp add: namedReports_def chainPayload_def)
  next
    case t
    with three have "storeTestXMLPaths v st2 = (None, st')"
      by (simp add: storeEventData_chain [OF id])
    from storeTestXMLPaths_paths [OF this] before t show ?thesis
      by (auto simp: namedReports_def chainPayload_def)
  next
    case c
    with three have "storeGenDir v st2 = (None, st')"
      by (simp add: storeEventData_chain [OF id])
    from storeGenDir_frame [OF this] before c show ?thesis
      by (simp add: namedReports_def chainPayload_def)
  next
    case n
    with three have "st' = st2" by (simp add: storeEventData_chain [OF id])
    with before n show ?thesis by (simp add: namedReports_def chainPayload_def)
  qed
qed

lemma tryBody_exitCode:
  assumes "tryBody v st = (None, st')" and "selects v ''buildFinished''"
    and "getPath v [''finished'', ''exitCode'', ''code''] = Inr code"
  shows "exitCode (outputs st') = (if truthy code then code else JNum 0)"
proof -
  from assms(1) obtain st1 where one: "setExitCode v st = Inr st1"
    by (cases "setExitCode v st") (simp_all add: tryBody_def)
  from assms(1) one obtain st2 where two: "collectStderr v st1 = Inr st2"
    by (cases "collectStderr v st1") (simp_all add: tryBody_def)
  from assms(1) one two have three: "storeEventData v st2 = (None, st')" by (simp add: tryBody_def)
  have id: "\<not> lacksId v" using one by (rule setExitCode_has_id)
  from one assms(2,3) have "exitCode (outputs st1) = (if truthy code then code else JNum 0)"
    by (auto simp: setExitCode_chain [OF id])
  with collectStderr_frame [OF two] storeEventData_frame [OF three] show ?thesis by simp
qed

lemma tryBody_frame:
  assumes "tryBody v st = (r, st')"
  shows "channel st' = channel st \<and> closed st' = closed st"
proof (cases "setExitCode v st")
  case (Inl e)
  with assms show ?thesis by (simp add: tryBody_def)
next
  case one: (Inr st1)
  note f1 = setExitCode_frame [OF one]
  show ?thesis
  proof (cases "collectStderr v st1")
    case (Inl e)
    with assms one f1 show ?thesis by (simp add: tryBody_def)
  next
    case two: (Inr st2)
    note f2 = collectStderr_frame [OF two]
    from assms one two have "storeEventData v st2 = (r, st')" by (simp add: tryBody_def)
    note f3 = storeEventData_frame [OF this]
    from f1 f2 f3 show ?thesis by simp
  qed
qed

text \<open>Whether a statement of the listener throws does not depend on the state.\<close>

lemma setExitCode_any_state:
  "setExitCode v st = Inr st1 \<Longrightarrow> \<exists>st1'. setExitCode v st' = Inr st1'"
  by (auto simp: setExitCode_def split: sum.splits if_splits)

lemma collectStderr_any_state:
  "collectStderr v st = Inr st1 \<Longrightarrow> \<exists>st1'. collectStderr v st' = Inr st1'"
  by (auto simp: collectStderr_def Let_def split: sum.splits)

lemma pushTestXMLPaths_any_state:
  "fst (pushTestXMLPaths xs st) = fst (pushTestXMLPaths xs st')"
proof (induction xs arbitrary: st st')
  case Nil
  then show ?case by simp
next
  case (Cons x xs)
  show ?case
  proof (cases "getProp x ''name''")
    case (Inl e)
    then show ?thesis by simp
  next
    case name: (Inr n)
    show ?thesis
    proof (cases "n = JStr ''test.xml''")
      case False
      with name Cons.IH [of st st'] show ?thesis by simp
    next
      case True
      show ?thesis
      proof (cases "getProp x ''uri''")
        case (Inl e)
        with name True show ?thesis by simp
      next
        case (Inr u)
        show ?thesis
        proof (cases u)
          case (JStr uri)
          with name True Inr
            Cons.IH [of "st\<lparr>outputs := (outputs st)
                        \<lparr>testXMLPaths := testXMLPaths (outputs st) @ [stripFileScheme uri]\<rparr>\<rparr>"
                        "st'\<lparr>outputs := (outputs st')
                        \<lparr>testXMLPaths := testXMLPaths (outputs st') @ [stripFileScheme uri]\<rparr>\<rparr>"]
          show ?thesis by simp
        qed (use name True Inr in simp_all)
      qed
    qed
  qed
qed

lemma storeTestXMLPaths_any_state:
  "fst (storeTestXMLPaths v st) = fst (storeTestXMLPaths v st')"
proof (cases "getPath v [''testResult'', ''testActionOutput'']")
  case (Inl e)
  then show ?thesis by (simp add: storeTestXMLPaths_def)
next
  case (Inr outs)
  then show ?thesis
    by (cases outs)
      (simp_all add: storeTestXMLPaths_def iterateTestActionOutput_def
         pushTestXMLPaths_any_state [of _ st st'])
qed

lemma storeLocalExecRoot_any_state:
  "fst (storeLocalExecRoot v st) = fst (storeLocalExecRoot v st')"
  unfolding storeLocalExecRoot_def
  by (cases "getPath v [''workspaceInfo'', ''localExecRoot'']") simp_all

lemma storeWorkspaceDirectory_any_state:
  "fst (storeWorkspaceDirectory v st) = fst (storeWorkspaceDirectory v st')"
  unfolding storeWorkspaceDirectory_def
  by (cases "getPath v [''started'', ''workspaceDirectory'']") simp_all

lemma storeGenDir_any_state:
  "fst (storeGenDir v st) = fst (storeGenDir v st')"
  unfolding storeGenDir_def
  by (cases "getPath v [''configuration'', ''makeVariable'', ''GENDIR'']") simp_all

lemma storeEventData_any_state:
  assumes "\<not> lacksId v"
  shows "fst (storeEventData v st) = fst (storeEventData v st')"
  unfolding storeEventData_chain [OF assms]
  using storeLocalExecRoot_any_state [of v st st'] storeWorkspaceDirectory_any_state [of v st st']
    storeTestXMLPaths_any_state [of v st st'] storeGenDir_any_state [of v st st']
  by simp

lemma tryBody_any_state:
  assumes "fst (tryBody v st) = None"
  shows "\<exists>st''. tryBody v st' = (None, st'')"
proof -
  from assms obtain st1 where one: "setExitCode v st = Inr st1"
    by (cases "setExitCode v st") (simp_all add: tryBody_def)
  from assms one obtain st2 where two: "collectStderr v st1 = Inr st2"
    by (cases "collectStderr v st1") (simp_all add: tryBody_def)
  from assms one two have three: "fst (storeEventData v st2) = None" by (simp add: tryBody_def)
  have id: "\<not> lacksId v" using one by (rule setExitCode_has_id)
  from setExitCode_any_state [OF one] obtain st1' where one': "setExitCode v st' = Inr st1'"
    by blast
  from collectStderr_any_state [OF two] obtain st2' where two': "collectStderr v st1' = Inr st2'"
    by blast
  from three storeEventData_any_state [OF id, of st2' st2]
  have "fst (storeEventData v st2') = None" by simp
  then obtain st'' where "storeEventData v st2' = (None, st'')"
    by (cases "storeEventData v st2'") simp
  with one' two' show ?thesis by (simp add: tryBody_def)
qed

text \<open>A handled line, a chunk of handled lines, a stream of handled lines.\<close>

lemma onLine_handled:
  assumes "handled P l"
  shows "\<exists>v. P l = Some v \<and> tryBody v st = (None, onLine P f l st)"
proof -
  from assms obtain v where v: "P l = Some v"
    and ok: "fst (tryBody v initialReaderState) = None"
    by (cases "P l") (simp_all add: handled_def)
  from tryBody_any_state [OF ok] obtain st'' where "tryBody v st = (None, st'')" by blast
  with v show ?thesis by (simp add: onLine_def)
qed

lemma emitLines_append:
  "emitLines P f (xs @ ys) st = emitLines P f ys (emitLines P f xs st)"
  by (induction xs arbitrary: st) simp_all

lemma emitLines_handled:
  assumes "\<forall>l \<in> set ls. handled P l"
  shows "closed (emitLines P f ls st) = closed st \<and>
         channel (emitLines P f ls st) = channel st \<and>
         testXMLPaths (outputs (emitLines P f ls st)) =
           testXMLPaths (outputs st) @ map reportPath (concat (map (lineReports P) ls)) \<and>
         (\<forall>x \<in> set (concat (map (lineReports P) ls)). \<exists>uri. getProp x ''uri'' = Inr (JStr uri))"
  using assms
proof (induction ls arbitrary: st)
  case Nil
  then show ?case by simp
next
  case (Cons l ls)
  from Cons.prems have "handled P l" by simp
  from onLine_handled [OF this] obtain v where v: "P l = Some v"
    and body: "tryBody v st = (None, onLine P f l st)" by blast
  note here = tryBody_paths [OF body]
  note frame = tryBody_frame [OF body]
  from Cons.prems have "\<forall>l \<in> set ls. handled P l" by simp
  note later = Cons.IH [OF this, of "onLine P f l st"]
  have reports: "concat (map (lineReports P) (l # ls)) =
      namedReports v @ concat (map (lineReports P) ls)"
    using v by (simp add: lineReports_def)
  show ?case
    unfolding reports using here frame later by auto
qed

lemma readChunks_handled:
  assumes "\<forall>l \<in> set (concat chunks). handled P l" and "\<not> closed st"
  shows "readChunks P f chunks st = emitLines P f (concat chunks) st"
  using assms
proof (induction chunks arbitrary: st)
  case Nil
  then show ?case by simp
next
  case (Cons chunk chunks)
  from Cons.prems(1) have here: "\<forall>l \<in> set chunk. handled P l"
    and later: "\<forall>l \<in> set (concat chunks). handled P l" by simp_all
  from emitLines_handled [OF here, of f st] Cons.prems(2)
  have "\<not> closed (emitLines P f chunk st)" by simp
  from Cons.IH [OF later this] Cons.prems(2) show ?case
    by (simp add: emitLines_append)
qed

lemma sample_lines:
  "sampleParse ''garbage'' = None"
  "sampleParse ''noinfo'' = Some (JObj [(''id'', JObj [(''workspace'', JObj [])])])"
  "sampleParse ''number'' = Some (JNum 5)"
  by code_simp+

lemma sample_handled:
  "handled sampleParse ''started''" "handled sampleParse ''result''"
  "handled sampleParse ''finished''"
  "\<not> handled sampleParse ''garbage''" "\<not> handled sampleParse ''noinfo''"
  "\<not> handled sampleParse ''number''"
  by code_simp+

lemma sample_run:
  "processBuildEvents sampleParse ''f'' [[''started'', ''result''], [''finished'']] =
     (\<lparr>testXMLPaths = [''/out/test.xml''], errorMessages = [], exitCode = JNum 0,
       workspaceDirectory = JStr ''/home/user/code'', localExecRoot = JUndefined,
       genDir = JUndefined\<rparr>, [])"
  by code_simp

lemma sample_reports:
  "length (concat (map (lineReports sampleParse) [''garbage'', ''result'', ''finished''])) = 1"
  "length (concat (map (lineReports sampleParse) [''started'', ''result'', ''finished''])) = 1"
  by code_simp+

text \<open>
  Claim C3 has the reader process no line after one that \<^verbatim>\<open>JSON.parse\<close> rejects, with
  exactly one diagnostic and the outputs of the lines before it; the comment in the source
  says the same (``stop processing on the first error''). \<^verbatim>\<open>lineReader.close()\<close> does not
  stop the lines of the chunk at hand. For the one chunk \<open>started\<close>, \<open>garbage\<close>, \<open>result\<close>,
  \<open>garbage\<close> the listener still runs on the two lines after the first corrupt one: the
  outputs have the path of the test result record, which the outputs of the line before
  the corrupt one do not have, and the channel has two diagnostics. In the scenario that
  the claim names, one valid line followed by one invalid line and nothing after it, the
  outputs are those of the first line and the channel has one diagnostic.
\<close>

theorem processBuildEvents_reads_on_after_malformed_line:
  "processBuildEvents sampleParse ''f'' [[''started'', ''garbage'', ''result'', ''garbage'']] =
     (\<lparr>testXMLPaths = [''/out/test.xml''], errorMessages = [], exitCode = JNum (- 1),
       workspaceDirectory = JStr ''/home/user/code'', localExecRoot = JUndefined,
       genDir = JUndefined\<rparr>, [malformedMessage ''f'', malformedMessage ''f'']) \<and>
   processBuildEvents sampleParse ''f'' [[''started'']] =
     (\<lparr>testXMLPaths = [], errorMessages = [], exitCode = JNum (- 1),
       workspaceDirectory = JStr ''/home/user/code'', localExecRoot = JUndefined,
       genDir = JUndefined\<rparr>, []) \<and>
   processBuildEvents sampleParse ''f'' [[''started'', ''garbage'']] =
     (\<lparr>testXMLPaths = [], errorMessages = [], exitCode = JNum (- 1),
       workspaceDirectory = JStr ''/home/user/code'', localExecRoot = JUndefined,
       genDir = JUndefined\<rparr>, [malformedMessage ''f''])"
  by code_simp

text \<open>
  Claim C10 has a line that parses but has no \<^verbatim>\<open>id\<close>, or lacks the payload that its \<^verbatim>\<open>id\<close>
  selects, handled as a malformed line is, with no further line processed. The listener
  does end in the same catch block: with the workspace record without its payload
  (\<open>noinfo\<close>), the number (\<open>number\<close>) or a corrupt line (\<open>garbage\<close>) in second place the
  results are the same. But, as for claim C3, the line that follows in the same chunk is
  still processed: the outputs have the path of the test result record that comes after
  the line, which they do not have when the stream ends with the line.
\<close>

theorem processBuildEvents_reads_on_after_missing_payload:
  "processBuildEvents sampleParse ''f'' [[''started'', ''noinfo'', ''result'']] =
     (\<lparr>testXMLPaths = [''/out/test.xml''], errorMessages = [], exitCode = JNum (- 1),
       workspaceDirectory = JStr ''/home/user/code'', localExecRoot = JUndefined,
       genDir = JUndefined\<rparr>, [malformedMessage ''f'']) \<and>
   processBuildEvents sampleParse ''f'' [[''started'', ''number'', ''result'']] =
     processBuildEvents sampleParse ''f'' [[''started'', ''noinfo'', ''result'']] \<and>
   processBuildEvents sampleParse ''f'' [[''started'', ''garbage'', ''result'']] =
     processBuildEvents sampleParse ''f'' [[''started'', ''noinfo'', ''result'']] \<and>
   testXMLPaths (fst (processBuildEvents sampleParse ''f'' [[''started'', ''noinfo'']])) = []"
  by code_simp

text \<open>
  Claim C5, as the spec states it, is about every stream that ends in a build-finished
  record with code 0 and has a test result record with an output named \<^verbatim>\<open>test.xml\<close>. The
  source stops reading at the first line on which the listener fails: when the first
  chunk of the stream is a corrupt line, the reader is closed before the second chunk,
  with the test result record and the build-finished record, is read. (A corrupt line of
  65,500 characters makes such a stream: the first 64 KiB of the file end inside the
  record that follows it.) The stream has one output named \<^verbatim>\<open>test.xml\<close>; \<open>testXMLPaths\<close>
  is empty and the exit code is still \<^verbatim>\<open>ExitCode.FailedToParse\<close>.
\<close>

theorem processBuildEvents_testXMLPaths_closed_reader_counterexample:
  "testXMLPaths (fst (processBuildEvents sampleParse ''f'' [[''garbage''], [''result'', ''finished'']]))
     = [] \<and>
   exitCode (fst (processBuildEvents sampleParse ''f'' [[''garbage''], [''result'', ''finished'']]))
     = JNum (- 1) \<and>
   length (concat (map (lineReports sampleParse) (concat [[''garbage''], [''result'', ''finished'']])))
     = 1"
  by code_simp

text \<open>
  Claim C5, amended: for every build event stream of which the listener handles every
  line (each line parses, and no statement of the listener throws on the record),
  however the stream is cut into chunks, no diagnostic is written and \<open>testXMLPaths\<close>
  holds one path for each output named \<^verbatim>\<open>test.xml\<close> of the test result records, in the
  order of the stream, so its length is the number of these outputs; each path is the
  \<^verbatim>\<open>uri\<close> of the output without a leading \<^verbatim>\<open>file://\<close>. When the stream ends in a
  build-finished record with code 0, the exit code of the outputs is 0.
\<close>

theorem processBuildEvents_testXMLPaths:
  assumes "\<forall>l \<in> set (concat fileChunks). handled JSON_parse l"
  shows "snd (processBuildEvents JSON_parse f fileChunks) = [] \<and>
    testXMLPaths (fst (processBuildEvents JSON_parse f fileChunks)) =
           map reportPath (concat (map (lineReports JSON_parse) (concat fileChunks))) \<and>
    length (testXMLPaths (fst (processBuildEvents JSON_parse f fileChunks))) =
           length (concat (map (lineReports JSON_parse) (concat fileChunks))) \<and>
    (\<forall>x \<in> set (concat (map (lineReports JSON_parse) (concat fileChunks))).
        \<exists>uri. getProp x ''uri'' = Inr (JStr uri) \<and> reportPath x = stripFileScheme uri) \<and>
    (\<forall>front lastLine v code.
        concat fileChunks = front @ [lastLine] \<and> JSON_parse lastLine = Some v \<and>
        selects v ''buildFinished'' \<and>
        getPath v [''finished'', ''exitCode'', ''code''] = Inr code \<and> \<not> truthy code \<longrightarrow>
        exitCode (fst (processBuildEvents JSON_parse f fileChunks)) = JNum 0)"
proof -
  define final where "final = emitLines JSON_parse f (concat fileChunks) initialReaderState"
  have start: "\<not> closed initialReaderState" "channel initialReaderState = []"
    "testXMLPaths (outputs initialReaderState) = []"
    by (simp_all add: initialReaderState_def)
  have run: "readChunks JSON_parse f fileChunks initialReaderState = final"
    unfolding final_def using assms start(1) by (rule readChunks_handled)
  have out: "fst (processBuildEvents JSON_parse f fileChunks) = outputs final"
    "snd (processBuildEvents JSON_parse f fileChunks) = channel final"
    by (simp_all add: processBuildEvents_def Let_def run)
  note paths = emitLines_handled [OF assms, of f initialReaderState, folded final_def]
  have p0: "channel final = []" using paths start by simp
  have p1: "testXMLPaths (outputs final) =
      map reportPath (concat (map (lineReports JSON_parse) (concat fileChunks)))"
    using paths start by simp
  have p2: "length (testXMLPaths (outputs final)) =
      length (concat (map (lineReports JSON_parse) (concat fileChunks)))"
    unfolding p1 by (rule length_map)
  have p3: "\<exists>uri. getProp x ''uri'' = Inr (JStr uri) \<and> reportPath x = stripFileScheme uri"
    if "x \<in> set (concat (map (lineReports JSON_parse) (concat fileChunks)))" for x
  proof -
    from paths that obtain uri where "getProp x ''uri'' = Inr (JStr uri)" by blast
    then show ?thesis by (simp add: reportPath_def)
  qed
  have p4: "exitCode (outputs final) = JNum 0"
    if last: "concat fileChunks = front @ [lastLine]" "JSON_parse lastLine = Some v"
      "selects v ''buildFinished''"
      "getPath v [''finished'', ''exitCode'', ''code''] = Inr code" "\<not> truthy code"
    for front lastLine v code
  proof -
    define s1 where "s1 = emitLines JSON_parse f front initialReaderState"
    have fin: "final = onLine JSON_parse f lastLine s1"
      by (simp add: final_def last(1) emitLines_append s1_def)
    from assms last(1) have "handled JSON_parse lastLine" by simp
    from onLine_handled [OF this, of s1 f] last(2) have "tryBody v s1 = (None, final)"
      by (simp add: fin)
    from tryBody_exitCode [OF this last(3) last(4)] last(5) show ?thesis by simp
  qed
  from p0 p1 p2 p3 p4 show ?thesis unfolding out by blast
qed

theorem processBuildEvents_testXMLPaths_witness:
  "handled sampleParse ''started'' \<and> handled sampleParse ''result'' \<and>
   handled sampleParse ''finished'' \<and>
   testXMLPaths (fst (processBuildEvents sampleParse ''f'' [[''started'', ''result''], [''finished'']]))
     = [''/out/test.xml''] \<and>
   length (concat (map (lineReports sampleParse) [''started'', ''result'', ''finished''])) = 1 \<and>
   exitCode (fst (processBuildEvents sampleParse ''f'' [[''started'', ''result''], [''finished'']]))
     = JNum 0 \<and>
   snd (processBuildEvents sampleParse ''f'' [[''started'', ''result''], [''finished'']]) = []"
  using processBuildEvents_testXMLPaths
          [of "[[''started'', ''result''], [''finished'']]" sampleParse "''f''"]
  by (simp add: sample_run sample_handled sample_reports)
section \<open>The Bazel argument vector\<close>

text \<open>
  Claim C7 has the value of the test filter flag formed by replacing the slash
  separators with \<open>$/^\<close> for every segment of a subtest path, as the comment in the source
  says (``anchor all segments of subtests''). The source calls \<^verbatim>\<open>replace\<close> with a string
  pattern, which replaces the first slash only. For the single target \<open>//pkg:all\<close> and the
  requested function \<open>TestA/sub1/sub2\<close> the argument vector carries the filter
  \<open>^TestA$/^sub1/sub2$\<close>: the second slash is not anchored, and the value differs from the
  one with every segment anchored, \<open>^TestA$/^sub1$/^sub2$\<close>.
\<close>

theorem getBazelArgs_anchors_first_slash_only:
  "getBazelArgs sampleTestConfig [] [''//pkg:all''] ''/tmp/ev'' None =
     [''test'', ''--build_tests_only'', ''--test_env=GO_TEST_WRAP_TESTV=1'',
      ''--build_event_json_file=/tmp/ev'', ''--build_event_json_file_path_conversion=no'',
      ''--tool_tag=vscode-go-bazel'',
      ''--test_filter='' @ [CHR 0x27] @ ''^TestA$/^sub1/sub2$'' @ [CHR 0x27],
      ''--user_sample_flag=TRUE'', ''//pkg:all''] \<and>
   anchorEverySegment (escapeSpecialCharacters ''TestA/sub1/sub2'') = ''TestA$/^sub1$/^sub2'' \<and>
   filterFunction ''TestA/sub1/sub2'' \<noteq>
     anchorEverySegment (escapeSpecialCharacters ''TestA/sub1/sub2'')"
  by (simp add: getBazelArgs_def sampleTestConfig_def testFilter_def filterFunction_def
      isSpecialCharacter_def commandVerb_def)

section \<open>Resolution of test names\<close>

subsection \<open>Subtests\<close>


















subsection \<open>Methods of suites\<close>

text \<open>
  A name with one slash, \<open>S/m\<close>, splits in one way, and no name with two slashes is a
  prefix of it: the loops of \<^verbatim>\<open>resolveTestName\<close> compare names and never reach
  \<^verbatim>\<open>resolveSubtest\<close>.
\<close>

lemma slash_split_unique:
  assumes "CHR ''/'' \<notin> set S" and "CHR ''/'' \<notin> set m"
    and "S @ ''/'' @ m = X @ ''/'' @ Y"
  shows "X = S \<and> Y = m"
proof -
  have "takeWhile (\<lambda>c. c \<noteq> CHR ''/'') (S @ ''/'' @ m) = S"
    using assms(1) by (induction S) auto
  moreover have "prefix (takeWhile (\<lambda>c. c \<noteq> CHR ''/'') (X @ ''/'' @ Y)) X"
    by (induction X) simp_all
  ultimately have "prefix S X" using assms(3) by simp
  then obtain X' where X: "X = S @ X'" by (auto simp: prefix_def)
  with assms(3) have eq: "''/'' @ m = X' @ ''/'' @ Y" by simp
  have "X' = []"
  proof (cases X')
    case Nil
    then show ?thesis .
  next
    case (Cons x xs)
    with eq have "m = xs @ ''/'' @ Y" by simp
    with assms(2) show ?thesis by simp
  qed
  with X eq show ?thesis by simp
qed

lemma no_second_slash:
  assumes "CHR ''/'' \<notin> set S" and "CHR ''/'' \<notin> set m"
  shows "\<not> prefix ((X @ ''/'' @ Y) @ ''/'') (S @ ''/'' @ m)"
proof
  assume "prefix ((X @ ''/'' @ Y) @ ''/'') (S @ ''/'' @ m)"
  then obtain Z where "S @ ''/'' @ m = X @ ''/'' @ (Y @ ''/'' @ Z)" by (auto simp: prefix_def)
  from slash_split_unique [OF assms this] assms(2) show False by auto
qed

lemma childrenLoop_one_slash:
  assumes "CHR ''/'' \<notin> set S" and "CHR ''/'' \<notin> set m"
  shows "childrenLoop extract (S @ ''/'' @ m) E cs (matchingChild, r) =
     ((case filter (\<lambda>ch. S @ ''/'' @ m = E @ ''/'' @ extract (parseIdName (item_id (items r ch)))) cs of
         [] \<Rightarrow> matchingChild
       | ms \<Rightarrow> Some (last ms)), r)"
proof (induction cs arbitrary: matchingChild)
  case Nil
  then show ?case by simp
next
  case (Cons ch cs)
  let ?t = "E @ ''/'' @ extract (parseIdName (item_id (items r ch)))"
  have deeper: "\<not> prefix (?t @ ''/'') (S @ ''/'' @ m)"
    using no_second_slash [OF assms] .
  show ?case
  proof (cases "S @ ''/'' @ m = ?t")
    case True
    then have "childrenLoop extract (S @ ''/'' @ m) E (ch # cs) (matchingChild, r) =
        childrenLoop extract (S @ ''/'' @ m) E cs (Some ch, r)"
      by (simp add: Let_def)
    also have "\<dots> =
        ((case filter (\<lambda>ch. S @ ''/'' @ m = E @ ''/'' @ extract (parseIdName (item_id (items r ch)))) cs of
            [] \<Rightarrow> Some ch
          | ms \<Rightarrow> Some (last ms)), r)"
      by (rule Cons.IH)
    finally show ?thesis using True by (simp split: list.splits)
  next
    case False
    with deeper have "childrenLoop extract (S @ ''/'' @ m) E (ch # cs) (matchingChild, r) =
        childrenLoop extract (S @ ''/'' @ m) E cs (matchingChild, r)"
      by (simp add: Let_def)
    with False Cons.IH [of matchingChild] show ?thesis by simp
  qed
qed

lemma suiteMethodCheck_one_slash:
  assumes "CHR ''/'' \<notin> set S" and "CHR ''/'' \<notin> set m"
  shows "suiteMethodCheck extract r (S @ ''/'' @ m) k item =
     (case item_parent (items r item) of
        None \<Rightarrow> None
      | Some p \<Rightarrow>
          if p \<in> isTestSuiteFunc r \<and> extract k \<noteq> [] \<and>
             S @ ''/'' @ m = parseIdName (item_id (items r p)) @ ''/'' @ extract k
          then Some (Some item, r) else None)"
proof (cases "item_parent (items r item)")
  case None
  then show ?thesis by (simp add: suiteMethodCheck_def)
next
  case (Some p)
  have "\<not> prefix (parseIdName (item_id (items r p)) @ ''/'' @ extract k @ ''/'') (S @ ''/'' @ m)"
    using no_second_slash [OF assms, of "parseIdName (item_id (items r p))" "extract k"] by simp
  with Some show ?thesis by (simp add: suiteMethodCheck_def Let_def)
qed

lemma testsLoop_first_match:
  assumes S: "CHR ''/'' \<notin> set S" and m: "CHR ''/'' \<notin> set m" and m_ne: "m \<noteq> []"
    and unique1: "\<And>k item p. (k, item) \<in> set rest \<Longrightarrow> item_parent (items r item) = Some p \<Longrightarrow>
        p \<in> isTestSuiteFunc r \<Longrightarrow> parseIdName (item_id (items r p)) = S \<Longrightarrow> extract k = m \<Longrightarrow>
        item = c"
    and unique2: "\<And>p ch. (S, p) \<in> set rest \<Longrightarrow> p \<in> isTestSuiteFunc r \<Longrightarrow>
        ch \<in> set (item_children (items r p)) \<Longrightarrow>
        extract (parseIdName (item_id (items r ch))) = m \<Longrightarrow> ch = c"
    and anchor: "(\<exists>k p. (k, c) \<in> set rest \<and> extract k = m \<and> item_parent (items r c) = Some p \<and>
          p \<in> isTestSuiteFunc r \<and> parseIdName (item_id (items r p)) = S) \<or>
        (\<exists>p. (S, p) \<in> set rest \<and> p \<in> isTestSuiteFunc r \<and>
          c \<in> set (item_children (items r p)) \<and>
          extract (parseIdName (item_id (items r c))) = m)"
  shows "testsLoop extract super tests (S @ ''/'' @ m) rest r = (Some c, r)"
  using unique1 unique2 anchor
proof (induction rest)
  case Nil
  then show ?case by simp
next
  case (Cons entry rest)
  obtain k item where entry: "entry = (k, item)" by (cases entry)
  let ?name = "S @ ''/'' @ m"
  let ?P = "\<lambda>ch. ?name = k @ ''/'' @ extract (parseIdName (item_id (items r ch)))"
  let ?ms = "filter ?P (item_children (items r item))"
  note method_check = suiteMethodCheck_one_slash [OF S m, of "extract" r k item]
  note children_loop = childrenLoop_one_slash [OF S m, of "extract" k "item_children (items r item)" None r]
  show ?case
  proof (cases "suiteMethodCheck extract r ?name k item")
    case (Some result)
    then obtain p where p: "item_parent (items r item) = Some p" "p \<in> isTestSuiteFunc r"
      "extract k \<noteq> []" "?name = parseIdName (item_id (items r p)) @ ''/'' @ extract k"
      and result: "result = (Some item, r)"
      unfolding method_check by (auto split: option.splits if_splits)
    from slash_split_unique [OF S m p(4)]
    have "parseIdName (item_id (items r p)) = S" "extract k = m" by simp_all
    with Cons.prems(1) [of k item p] p entry have "item = c" by simp
    with Some result entry show ?thesis by simp
  next
    case None
    have not_first: "\<not> (\<exists>p. item = c \<and> extract k = m \<and> item_parent (items r c) = Some p \<and>
          p \<in> isTestSuiteFunc r \<and> parseIdName (item_id (items r p)) = S)"
      using None m_ne unfolding method_check by (auto split: option.splits if_splits)
    show ?thesis
    proof (cases "item \<in> isTestSuiteFunc r \<and> ?ms \<noteq> []")
      case True
      then have "?ms \<noteq> []" by blast
      then have "last ?ms \<in> set ?ms" by (rule last_in_set)
      then have ch: "last ?ms \<in> set (item_children (items r item))" "?P (last ?ms)"
        by simp_all
      from slash_split_unique [OF S m ch(2)] have k: "k = S" by (rule conjunct1)
      from slash_split_unique [OF S m ch(2)]
      have e: "extract (parseIdName (item_id (items r (last ?ms)))) = m" by (rule conjunct2)
      from k entry have listed: "(S, item) \<in> set (entry # rest)" by simp
      from True have suite: "item \<in> isTestSuiteFunc r" by (rule conjunct1)
      from Cons.prems(2) [OF listed suite ch(1) e] have found: "last ?ms = c" .
      from True have "?ms \<noteq> []" by (rule conjunct2)
      then have "childrenLoop extract ?name k (item_children (items r item)) (None, r) =
          (Some (last ?ms), r)"
        unfolding children_loop by (cases ?ms) simp_all
      with found
      have "childrenLoop extract ?name k (item_children (items r item)) (None, r) = (Some c, r)"
        by simp
      with None suite entry show ?thesis by simp
    next
      case False
      have not_second: "\<not> (k = S \<and> item \<in> isTestSuiteFunc r \<and>
            c \<in> set (item_children (items r item)) \<and>
            extract (parseIdName (item_id (items r c))) = m)"
      proof
        assume a: "k = S \<and> item \<in> isTestSuiteFunc r \<and>
            c \<in> set (item_children (items r item)) \<and>
            extract (parseIdName (item_id (items r c))) = m"
        then have "c \<in> set ?ms" by simp
        with a False show False by auto
      qed
      have step: "testsLoop extract super tests ?name (entry # rest) r =
          testsLoop extract super tests ?name rest r"
      proof (cases "item \<in> isTestSuiteFunc r")
        case True
        with False have "?ms = []" by simp
        with None True entry children_loop show ?thesis by simp
      next
        case False
        with None entry show ?thesis by simp
      qed
      have "testsLoop extract super tests ?name rest r = (Some c, r)"
      proof (rule Cons.IH)
        fix k' item' p'
        assume "(k', item') \<in> set rest" "item_parent (items r item') = Some p'"
          "p' \<in> isTestSuiteFunc r" "parseIdName (item_id (items r p')) = S" "extract k' = m"
        then show "item' = c" using Cons.prems(1) [of k' item' p'] by simp
      next
        fix p' ch
        assume "(S, p') \<in> set rest" "p' \<in> isTestSuiteFunc r"
          "ch \<in> set (item_children (items r p'))"
          "extract (parseIdName (item_id (items r ch))) = m"
        then show "ch = c" using Cons.prems(2) [of p' ch] by simp
      next
        from Cons.prems(3) not_first not_second entry
        show "(\<exists>k p. (k, c) \<in> set rest \<and> extract k = m \<and> item_parent (items r c) = Some p \<and>
              p \<in> isTestSuiteFunc r \<and> parseIdName (item_id (items r p)) = S) \<or>
            (\<exists>p. (S, p) \<in> set rest \<and> p \<in> isTestSuiteFunc r \<and>
              c \<in> set (item_children (items r p)) \<and>
              extract (parseIdName (item_id (items r c))) = m)"
          by auto
      qed
      with step show ?thesis by simp
    qed
  qed
qed

lemma formatTestCaseForFilter_no_suite:
  "\<not> parentIsKnownSuite r item \<Longrightarrow>
   formatTestCaseForFilter extract r testFunctionName (Some item) = testFunctionName"
  by (simp add: formatTestCaseForFilter_def parentIsKnownSuite_def Let_def split: option.splits)

lemma sampleResolver_items:
  "items sampleResolver 0 =
     \<lparr>item_id = ''file:///mod/file.go?test#MyTestSuite'', item_label = ''MyTestSuite'',
      item_parent = None, item_children = [1]\<rparr>"
  "items sampleResolver (Suc 0) =
     \<lparr>item_id = ''file:///mod/file.go?test#(*mySuiteType).TestCase1'',
      item_label = ''TestCase1'', item_parent = Some 0, item_children = []\<rparr>"
  "isTestSuiteFunc sampleResolver = {0}" "allocated sampleResolver = 2"
  by (simp_all add: sampleResolver_def)

lemma sample_names:
  "parseIdName ''file:///mod/file.go?test#MyTestSuite'' = ''MyTestSuite''"
  "parseIdName ''file:///mod/file.go?test#(*mySuiteType).TestCase1'' = ''(*mySuiteType).TestCase1''"
  "sampleExtract ''(*mySuiteType).TestCase1'' = ''TestCase1''"
  "sampleExtract ''MyTestSuite'' = []"
  by (simp_all add: parseIdName_def sampleExtract_def)


text \<open>
  Claim C1: let \<open>S\<close> be the name of a known suite \<open>p\<close> and \<open>c\<close> an item whose parent is \<open>p\<close>,
  with the reported identifier \<open>k\<close>, from which \<^verbatim>\<open>extractInstanceTestName\<close> takes the name
  \<open>m\<close> of the method (not empty, and like \<open>S\<close> without a slash). Let \<open>tests\<close> hold the method
  \<open>c\<close> under \<open>k\<close>, or the suite \<open>p\<close> under \<open>S\<close> with \<open>c\<close> among its children and \<open>k\<close> the name
  in the id of \<open>c\<close>, and let no other item answer to the name \<open>S/m\<close>. Then resolving the
  name \<open>S/m\<close> returns \<open>c\<close> and leaves the store as it is, whatever the resolution of the
  super class does, and \<^verbatim>\<open>formatTestCaseForFilter\<close> applied to \<open>k\<close> and \<open>c\<close> returns \<open>S/m\<close>.
  For every item whose parent is not a known suite, \<^verbatim>\<open>formatTestCaseForFilter\<close> returns
  the name it is given.
\<close>

theorem resolveTestName_suite_method:
  assumes S: "CHR ''/'' \<notin> set S" and m: "CHR ''/'' \<notin> set m" and m_ne: "m \<noteq> []"
    and suite: "p \<in> isTestSuiteFunc r" and suiteName: "parseIdName (item_id (items r p)) = S"
    and owned: "item_parent (items r c) = Some p" and named: "extract k = m"
    and listed: "(k, c) \<in> set tests \<or>
        (S, p) \<in> set tests \<and> c \<in> set (item_children (items r p)) \<and>
        parseIdName (item_id (items r c)) = k"
    and unique1: "\<And>k' item p'. (k', item) \<in> set tests \<Longrightarrow>
        item_parent (items r item) = Some p' \<Longrightarrow> p' \<in> isTestSuiteFunc r \<Longrightarrow>
        parseIdName (item_id (items r p')) = S \<Longrightarrow> extract k' = m \<Longrightarrow> item = c"
    and unique2: "\<And>p' ch. (S, p') \<in> set tests \<Longrightarrow> p' \<in> isTestSuiteFunc r \<Longrightarrow>
        ch \<in> set (item_children (items r p')) \<Longrightarrow>
        extract (parseIdName (item_id (items r ch))) = m \<Longrightarrow> ch = c"
  shows "resolveTestName extract super r tests (S @ ''/'' @ m) = (Some c, r) \<and>
         formatTestCaseForFilter extract r k (Some c) = S @ ''/'' @ m \<and>
         (\<forall>item testFunctionName. \<not> parentIsKnownSuite r item \<longrightarrow>
            formatTestCaseForFilter extract r testFunctionName (Some item) = testFunctionName)"
proof (intro conjI allI impI)
  have "testsLoop extract super tests (S @ ''/'' @ m) tests r = (Some c, r)"
  proof (rule testsLoop_first_match [OF S m m_ne])
    fix k' item p'
    assume "(k', item) \<in> set tests" "item_parent (items r item) = Some p'"
      "p' \<in> isTestSuiteFunc r" "parseIdName (item_id (items r p')) = S" "extract k' = m"
    then show "item = c" by (rule unique1)
  next
    fix p' ch
    assume "(S, p') \<in> set tests" "p' \<in> isTestSuiteFunc r"
      "ch \<in> set (item_children (items r p'))"
      "extract (parseIdName (item_id (items r ch))) = m"
    then show "ch = c" by (rule unique2)
  next
    from listed named owned suite suiteName
    show "(\<exists>k p. (k, c) \<in> set tests \<and> extract k = m \<and> item_parent (items r c) = Some p \<and>
          p \<in> isTestSuiteFunc r \<and> parseIdName (item_id (items r p)) = S) \<or>
        (\<exists>p. (S, p) \<in> set tests \<and> p \<in> isTestSuiteFunc r \<and>
          c \<in> set (item_children (items r p)) \<and>
          extract (parseIdName (item_id (items r c))) = m)"
      by blast
  qed
  then show "resolveTestName extract super r tests (S @ ''/'' @ m) = (Some c, r)"
    by (simp add: resolveTestName_def)
next
  from named owned suite suiteName m_ne
  show "formatTestCaseForFilter extract r k (Some c) = S @ ''/'' @ m"
    by (simp add: formatTestCaseForFilter_def Let_def)
next
  fix item testFunctionName
  assume "\<not> parentIsKnownSuite r item"
  then show "formatTestCaseForFilter extract r testFunctionName (Some item) = testFunctionName"
    by (rule formatTestCaseForFilter_no_suite)
qed

theorem resolveTestName_suite_method_witness:
  "resolveTestName sampleExtract noSuper sampleResolver [(''MyTestSuite'', 0)]
     ''MyTestSuite/TestCase1'' = (Some 1, sampleResolver) \<and>
   resolveTestName sampleExtract noSuper sampleResolver [(''(*mySuiteType).TestCase1'', 1)]
     ''MyTestSuite/TestCase1'' = (Some 1, sampleResolver) \<and>
   resolveTestName sampleExtract noSuper sampleResolver sampleTests
     ''MyTestSuite/TestCase1'' = (Some 1, sampleResolver) \<and>
   formatTestCaseForFilter sampleExtract sampleResolver ''(*mySuiteType).TestCase1'' (Some 1) =
     ''MyTestSuite/TestCase1'' \<and>
   formatTestCaseForFilter sampleExtract sampleResolver ''TestPlain'' (Some 0) = ''TestPlain''"
proof -
  let ?k = "''(*mySuiteType).TestCase1''"
  have no_suite: "\<not> parentIsKnownSuite sampleResolver 0"
    by (simp add: parentIsKnownSuite_def sampleResolver_items)
  have run: "resolveTestName sampleExtract noSuper sampleResolver tests
          (''MyTestSuite'' @ ''/'' @ ''TestCase1'') = (Some 1, sampleResolver) \<and>
        formatTestCaseForFilter sampleExtract sampleResolver ?k (Some 1) =
          ''MyTestSuite'' @ ''/'' @ ''TestCase1'' \<and>
        (\<forall>item testFunctionName. \<not> parentIsKnownSuite sampleResolver item \<longrightarrow>
           formatTestCaseForFilter sampleExtract sampleResolver testFunctionName (Some item) =
             testFunctionName)"
    if tests: "set tests \<subseteq> set sampleTests" "tests \<noteq> []" for tests
  proof (rule resolveTestName_suite_method [where p = 0 and k = ?k])
    show "CHR ''/'' \<notin> set ''MyTestSuite''" by simp
    show "CHR ''/'' \<notin> set ''TestCase1''" by simp
    show "''TestCase1'' \<noteq> []" by simp
    show "0 \<in> isTestSuiteFunc sampleResolver" by (simp add: sampleResolver_items)
    show "parseIdName (item_id (items sampleResolver 0)) = ''MyTestSuite''"
      by (simp add: sampleResolver_items sample_names)
    show "item_parent (items sampleResolver 1) = Some 0" by (simp add: sampleResolver_items)
    show "sampleExtract ?k = ''TestCase1''" by (simp add: sample_names)
    from tests obtain entry where "entry \<in> set tests" "entry \<in> set sampleTests"
      by (cases tests) auto
    then show "(?k, 1) \<in> set tests \<or>
        (''MyTestSuite'', 0) \<in> set tests \<and> 1 \<in> set (item_children (items sampleResolver 0)) \<and>
        parseIdName (item_id (items sampleResolver 1)) = ?k"
      by (auto simp: sampleTests_def sampleResolver_items sample_names)
  next
    fix k' item p'
    assume "(k', item) \<in> set tests" "item_parent (items sampleResolver item) = Some p'"
    with tests(1) show "item = 1" by (auto simp: sampleTests_def sampleResolver_items)
  next
    fix p' ch
    assume "(''MyTestSuite'', p') \<in> set tests"
      "ch \<in> set (item_children (items sampleResolver p'))"
    with tests(1) show "ch = 1" by (auto simp: sampleTests_def sampleResolver_items)
  qed
  from run [of "[(''MyTestSuite'', 0)]"] run [of "[(?k, 1)]"] run [of sampleTests] no_suite
  show ?thesis by (simp add: sampleTests_def)
qed
end
